theory Spec2Isabelle
  imports Complex_Main
begin

chapter \<open>ccEvo: the decision-and-gating pipeline, embedded in HOL\<close>

section \<open>JavaScript values used by the pipeline\<close>

text \<open>
  A JavaScript string is the list of its UTF-16 code units; \<open>length\<close>, \<open>take\<close> and
  list equality are then \<^verbatim>\<open>.length\<close>, \<^verbatim>\<open>.slice(0, n)\<close> and \<^verbatim>\<open>===\<close>.
  ASCII literals of the source are written \<open>js ''...''\<close>, other literals by their code units.
  JavaScript numbers are modelled by \<open>int\<close> where the code only counts and by \<open>real\<close>
  where it compares fractions; the value scorer, whose result depends on the rounding of
  doubles, has a type of doubles of its own.
\<close>

type_synonym jsstring = "nat list"

definition js :: "string \<Rightarrow> jsstring" where
  "js s = map of_char s"

text \<open>\<^verbatim>\<open>s.startsWith(p)\<close> and \<^verbatim>\<open>s.includes(p)\<close>.\<close>

definition startsWith :: "jsstring \<Rightarrow> jsstring \<Rightarrow> bool" where
  "startsWith s p = (take (length p) s = p)"

fun str_includes :: "jsstring \<Rightarrow> jsstring \<Rightarrow> bool" where
  "str_includes [] p = (p = [])"
| "str_includes (c # cs) p = (startsWith (c # cs) p \<or> str_includes cs p)"

text \<open>Template interpolation of a number: \<^verbatim>\<open>`${n}`\<close> for an integer \<open>n\<close>.\<close>

fun show_nat :: "nat \<Rightarrow> jsstring" where
  "show_nat n = (if n < 10 then [48 + n] else show_nat (n div 10) @ [48 + n mod 10])"

definition show_int :: "int \<Rightarrow> jsstring" where
  "show_int i = (if i < 0 then 45 # show_nat (nat (- i)) else show_nat (nat i))"

section \<open>Mutation protocol (src/src/gep/mutation.js)\<close>

text \<open>
  The JSDoc types \<^verbatim>\<open>MutationCategory\<close> and \<^verbatim>\<open>RiskLevel\<close>: three strings each.
\<close>

datatype category = Repair | Optimize | Innovate

datatype risk_level = Low | LowMedium | Medium

text \<open>\<^verbatim>\<open>RISK_MAP\<close>: repair: 'low', optimize: 'low-medium', innovate: 'medium'.\<close>

fun RISK_MAP :: "category \<Rightarrow> risk_level" where
  "RISK_MAP Repair = Low"
| "RISK_MAP Optimize = LowMedium"
| "RISK_MAP Innovate = Medium"

record mutation =
  category :: category
  risk_level :: risk_level
  trigger_signals :: "jsstring list"
  target :: jsstring
  expected_effect :: jsstring
  mutation_gene_id :: "jsstring option"
  created_at :: jsstring

record blast =
  files :: int
  lines :: int

record assessment =
  risk :: risk_level
  warnings :: "jsstring list"

text \<open>
  \<^verbatim>\<open>assessRisk(mutation, blast)\<close>. The three \<^verbatim>\<open>if\<close> statements run in the source's order,
  each on the state the previous one left; the second one pushes a warning and assigns
  nothing to \<^verbatim>\<open>risk\<close>.
\<close>

definition assessRisk :: "mutation \<Rightarrow> blast \<Rightarrow> assessment" where
  "assessRisk m b =
    (let a0 = \<lparr>risk = RISK_MAP (category m), warnings = []\<rparr>;
         a1 = (if files b > 10
               then \<lparr>risk = Medium,
                     warnings = warnings a0 @ [js ''High blast radius: '' @ show_int (files b) @ js '' files'']\<rparr>
               else a0);
         a2 = (if lines b > 500
               then a1\<lparr>warnings := warnings a1 @ [js ''Large change: '' @ show_int (lines b) @ js '' lines'']\<rparr>
               else a1);
         a3 = (if category m = Innovate \<and> files b > 5
               then \<lparr>risk = Medium,
                     warnings = warnings a2 @ [js ''Innovation with wide blast radius'']\<rparr>
               else a2)
     in a3)"

text \<open>The mutation of the repository's own test of \<^verbatim>\<open>assessRisk\<close>: category 'repair'.\<close>

definition repair_mutation :: mutation where
  "repair_mutation =
    \<lparr>category = Repair, risk_level = Low, trigger_signals = [js ''log_error''],
     target = js ''Fix crash bug'', expected_effect = js ''Crash will stop occurring'',
     mutation_gene_id = None, created_at = js ''2024-01-01T00:00:00.000Z''\<rparr>"


section \<open>Stored records: genes, capsules, events, capability nodes\<close>

text \<open>
  The records carry the fields the constructors of the source write
  (\<^verbatim>\<open>createGene\<close>, \<^verbatim>\<open>createCapsule\<close>, \<^verbatim>\<open>createEvent\<close>, \<^verbatim>\<open>createNode\<close>). A field the
  readers guard with \<^verbatim>\<open>x && x.f\<close> is optional; \<^verbatim>\<open>null\<close> is \<open>None\<close>. Field names that
  several objects share carry the object's name as a prefix.
\<close>

record constraints =
  max_files :: "int option"
  forbidden_paths :: "jsstring list"

record gene =
  gene_id :: jsstring
  gene_category :: category
  signals_match :: "jsstring list"
  gene_preconditions :: "jsstring list"
  strategy :: "jsstring list"
  gene_constraints :: "constraints option"
  validation :: "jsstring list"
  capability_node_id :: "jsstring option"
  gene_v_score :: "real option"
  gene_created_at :: jsstring

record metrics =
  blast_files :: int
  blast_lines :: int
  validation_passed :: bool

record capsule =
  capsule_id :: jsstring
  capsule_gene_id :: jsstring
  mutation_category :: jsstring
  capsule_signals :: "jsstring list"
  files_changed :: "jsstring list"
  summary :: jsstring
  capsule_metrics :: "metrics option"
  capsule_created_at :: jsstring

record event =
  event_id :: jsstring
  event_type :: jsstring
  event_gene_id :: "jsstring option"
  cycle_id :: "jsstring option"
  timestamp :: jsstring

text \<open>
  A capability node. \<open>last_triggered\<close> is \<^verbatim>\<open>null\<close> or the instant (milliseconds since the
  epoch) that the stored ISO string denotes, i.e. what \<^verbatim>\<open>new Date(s).getTime()\<close> reads.
\<close>

record node =
  node_id :: jsstring
  node_name :: jsstring
  level :: jsstring
  parent_id :: jsstring
  node_input :: jsstring
  node_output :: jsstring
  preconditions :: "jsstring list"
  failure_boundary :: jsstring
  linked_genes :: "jsstring list"
  linked_skills :: "jsstring list"
  children :: "jsstring list"
  status :: jsstring
  v_score :: "real option"
  last_triggered :: "int option"
  trigger_count :: nat

section \<open>Weight mutator (src/vfm/mutator.js, the second file of src/unnamed/part_008)\<close>

record vfm_weights =
  frequency :: real
  failReduce :: real
  userBurden :: real
  selfCost :: real




text \<open>\<^verbatim>\<open>c.metrics && c.metrics.validation_passed\<close>, as a truth value.\<close>

definition capsule_passed :: "capsule \<Rightarrow> bool" where
  "capsule_passed c = (case capsule_metrics c of None \<Rightarrow> False | Some m \<Rightarrow> validation_passed m)"





text \<open>The failing capsule of the repository's test 'increases failReduce on high failure rate'.\<close>

definition failed_capsule :: capsule where
  "failed_capsule =
    \<lparr>capsule_id = js ''capsule_0'', capsule_gene_id = js ''g1'', mutation_category = js ''repair'',
     capsule_signals = [], files_changed = [], summary = js ''s'',
     capsule_metrics = Some \<lparr>blast_files = 0, blast_lines = 0, validation_passed = False\<rparr>,
     capsule_created_at = js ''2024-01-01T00:00:00.000Z''\<rparr>"

section \<open>Gene matching and selection (src/src/gep/gene.js, src/src/core/selector.js)\<close>

text \<open>Line terminators, which \<^verbatim>\<open>.\<close> of a regular expression does not match.\<close>

definition is_line_terminator :: "nat \<Rightarrow> bool" where
  "is_line_terminator c = (c = 10 \<or> c = 13 \<or> c = 8232 \<or> c = 8233)"

text \<open>
  \<^verbatim>\<open>s.replace(/:.*$/, ':')\<close>: the leftmost colon from which no line terminator follows up
  to the end of the string is kept, and what follows it is dropped; without such a colon the
  string is unchanged.
\<close>

fun colon_prefix :: "jsstring \<Rightarrow> jsstring" where
  "colon_prefix [] = []"
| "colon_prefix (c # cs) =
    (if c = 58 \<and> list_all (\<lambda>d. \<not> is_line_terminator d) cs then [58]
     else c # colon_prefix cs)"

text \<open>One required signal of \<^verbatim>\<open>matchScore\<close>: what the loop body adds to \<^verbatim>\<open>matched\<close>.\<close>

definition matched_of :: "jsstring list \<Rightarrow> jsstring \<Rightarrow> real" where
  "matched_of signals s =
    (if s \<in> set signals then 1
     else let prefix = colon_prefix s
          in if prefix \<noteq> s \<and> list_ex (\<lambda>sig. startsWith sig prefix) signals then 0.5 else 0)"

definition matchScore :: "gene \<Rightarrow> jsstring list \<Rightarrow> real" where
  "matchScore g signals =
    (if signals_match g = [] then 0
     else (\<Sum>s \<leftarrow> signals_match g. matched_of signals s) / real (length (signals_match g)))"

record select_options =
  preferCategory :: "category option"
  minScore :: "real option"

text \<open>The score \<^verbatim>\<open>selectGene\<close> gives a gene: its matchScore, plus 0.1 for the preferred category.\<close>

definition select_score :: "jsstring list \<Rightarrow> category option \<Rightarrow> gene \<Rightarrow> real" where
  "select_score signals prefer g =
    (let score = matchScore g signals
     in if prefer = Some (gene_category g) then score + 0.1 else score)"

text \<open>
  \<^verbatim>\<open>selectGene(signals, options)\<close>; \<open>genes\<close> is the array \<^verbatim>\<open>loadGenes()\<close> returns and \<open>None\<close>
  is \<^verbatim>\<open>null\<close>. \<^verbatim>\<open>Array.prototype.sort\<close> is stable, and so is \<open>sort_key\<close>; the comparator
  \<^verbatim>\<open>b.score - a.score\<close> orders by descending score.
\<close>

definition selectGene :: "gene list \<Rightarrow> jsstring list \<Rightarrow> select_options \<Rightarrow> gene option" where
  "selectGene genes signals options =
    (if signals = [] then None
     else let min_score = (case minScore options of Some m \<Rightarrow> m | None \<Rightarrow> 0.3)
          in if genes = [] then None
             else let scored = sort_key (\<lambda>item. - snd item)
                        (filter (\<lambda>item. snd item \<ge> min_score)
                          (map (\<lambda>g. (g, select_score signals (preferCategory options) g)) genes))
                  in if scored = [] then None else Some (fst (hd scored)))"

text \<open>The 'repair' gene of the repository's selector test.\<close>

definition gene_test_repair :: gene where
  "gene_test_repair =
    \<lparr>gene_id = js ''gene_test_repair'', gene_category = Repair,
     signals_match = [js ''log_error'', js ''recurring_error''], gene_preconditions = [],
     strategy = [js ''Fix the error''],
     gene_constraints = Some \<lparr>max_files = Some 12, forbidden_paths = [js ''.git'', js ''node_modules'']\<rparr>,
     validation = [], capability_node_id = None, gene_v_score = None,
     gene_created_at = js ''2024-01-01T00:00:00.000Z''\<rparr>"

section \<open>PCEC cycle (src/pcec/cycle.js, in src/unnamed/part_007)\<close>

text \<open>
  \<^verbatim>\<open>EXCLUDE_KEYWORDS\<close>, by UTF-16 code units: the six Chinese phrases of the source, for
  summary, review, restatement, no obvious (change), format and wording.
\<close>

definition EXCLUDE_KEYWORDS :: "jsstring list" where
  "EXCLUDE_KEYWORDS =
    [[0x603B, 0x7ED3], [0x56DE, 0x987E], [0x590D, 0x8FF0],
     [0x6CA1, 0x6709, 0x660E, 0x663E], [0x683C, 0x5F0F], [0x63AA, 0x8F9E]]"

definition SUBSTANTIVE_TYPES :: "jsstring list" where
  "SUBSTANTIVE_TYPES = [js ''capability'', js ''abstraction'', js ''leverage'']"

record outcome =
  outcome_type :: jsstring
  description :: jsstring
  added_at :: jsstring

text \<open>The argument of \<^verbatim>\<open>addOutcome\<close>: an object whose two properties may be missing.\<close>

record outcome_arg =
  arg_type :: "jsstring option"
  arg_description :: "jsstring option"

record pcec_cycle =
  pcec_id :: jsstring
  started_at :: jsstring
  ended_at :: "jsstring option"
  outcomes :: "outcome list"
  pcec_status :: jsstring

text \<open>The constructor; the random id and the clock are arguments.\<close>

definition new_cycle :: "jsstring \<Rightarrow> jsstring \<Rightarrow> pcec_cycle" where
  "new_cycle ident now =
    \<lparr>pcec_id = ident, started_at = now, ended_at = None, outcomes = [], pcec_status = js ''running''\<rparr>"

text \<open>\<^verbatim>\<open>x || d\<close> for a string property: missing and empty both give the default.\<close>

definition or_default :: "jsstring option \<Rightarrow> jsstring \<Rightarrow> jsstring" where
  "or_default x d = (case x of None \<Rightarrow> d | Some s \<Rightarrow> if s = [] then d else s)"

text \<open>\<^verbatim>\<open>addOutcome(outcome)\<close>; \<open>None\<close> is an argument that is not an object.\<close>

definition addOutcome :: "jsstring \<Rightarrow> pcec_cycle \<Rightarrow> outcome_arg option \<Rightarrow> pcec_cycle" where
  "addOutcome now cycle arg =
    (case arg of
       None \<Rightarrow> cycle
     | Some a \<Rightarrow> cycle\<lparr>outcomes := outcomes cycle @
         [\<lparr>outcome_type = or_default (arg_type a) (js ''unknown''),
           description = or_default (arg_description a) [],
           added_at = now\<rparr>]\<rparr>)"

definition hasSubstantiveOutcome :: "pcec_cycle \<Rightarrow> bool" where
  "hasSubstantiveOutcome cycle =
    (if outcomes cycle = [] then False
     else let validTypeOutcomes = filter (\<lambda>a. outcome_type a \<in> set SUBSTANTIVE_TYPES) (outcomes cycle)
          in if validTypeOutcomes = [] then False
             else let substantiveOutcomes =
                        filter (\<lambda>a. if description a = [] then False
                                     else \<not> list_ex (\<lambda>keyword. str_includes (description a) keyword)
                                                 EXCLUDE_KEYWORDS)
                               validTypeOutcomes
                  in length substantiveOutcomes > 0)"

section \<open>Property lookup on plain objects\<close>

text \<open>
  \<^verbatim>\<open>this.data.nodes\<close> of the capability tree and \<^verbatim>\<open>geneMap\<close> of the scorer are plain
  objects, and \<^verbatim>\<open>obj[k]\<close> on a plain object reads through the prototype chain: a key that is
  no own property of the object finds the property of \<^verbatim>\<open>Object.prototype\<close>, if there is one.
  These are the functions every object inherits, the accessor \<^verbatim>\<open>__proto__\<close>, which reads
  the prototype object itself, and what the program has added to the prototype.
\<close>

definition OBJECT_PROTOTYPE_FUNCTIONS :: "jsstring list" where
  "OBJECT_PROTOTYPE_FUNCTIONS =
    [js ''constructor'', js ''__defineGetter__'', js ''__defineSetter__'', js ''hasOwnProperty'',
     js ''__lookupGetter__'', js ''__lookupSetter__'', js ''isPrototypeOf'',
     js ''propertyIsEnumerable'', js ''toString'', js ''valueOf'', js ''toLocaleString'']"

text \<open>
  An inherited value: the function of that name, \<^verbatim>\<open>Object.prototype\<close> (read by
  \<^verbatim>\<open>__proto__\<close>), or the array that \<^verbatim>\<open>Object.prototype.children\<close> holds once the tree has
  assigned it (read by the key \<^verbatim>\<open>children\<close>). All of them are truthy.
\<close>

datatype inherited = FunctionValue jsstring | PrototypeValue | ArrayValue

text \<open>
  The part of the global objects that the tree writes: the only property it assigns on an
  inherited value is \<^verbatim>\<open>children\<close>. \<open>fn_children\<close> holds the own \<^verbatim>\<open>children\<close> array of
  each inherited function that has one. \<open>proto_children\<close> is the array
  \<^verbatim>\<open>Object.prototype.children\<close> when it exists: its elements, and the elements of the
  array's own property \<^verbatim>\<open>children\<close> if that was assigned in turn.
\<close>

record realm =
  fn_children :: "jsstring \<Rightarrow> jsstring list option"
  proto_children :: "(jsstring list \<times> jsstring list option) option"

text \<open>The global objects of a fresh process.\<close>

definition pristine :: realm where
  "pristine = \<lparr>fn_children = (\<lambda>k. None), proto_children = None\<rparr>"

text \<open>What \<^verbatim>\<open>obj[k]\<close> finds on the prototype when \<^verbatim>\<open>obj\<close> has no own property \<open>k\<close>.\<close>

definition inherited_property :: "realm \<Rightarrow> jsstring \<Rightarrow> inherited option" where
  "inherited_property r k =
    (if k \<in> set OBJECT_PROTOTYPE_FUNCTIONS then Some (FunctionValue k)
     else if k = js ''__proto__'' then Some PrototypeValue
     else if k = js ''children'' \<and> proto_children r \<noteq> None then Some ArrayValue
     else None)"

text \<open>The keys that can name an inherited value in some state of the global objects.\<close>

definition inherited_name :: "jsstring \<Rightarrow> bool" where
  "inherited_name k =
    (k \<in> set OBJECT_PROTOTYPE_FUNCTIONS \<or> k = js ''__proto__'' \<or> k = js ''children'')"

text \<open>
  \<^verbatim>\<open>v.children\<close> of an inherited value, \<open>None\<close> for \<^verbatim>\<open>undefined\<close>: the value's own array,
  else the array inherited from \<^verbatim>\<open>Object.prototype\<close>, which for that array is the array
  itself.
\<close>

definition inherited_children :: "realm \<Rightarrow> inherited \<Rightarrow> jsstring list option" where
  "inherited_children r v =
    (case v of
       FunctionValue k \<Rightarrow>
         (case fn_children r k of
            Some cs \<Rightarrow> Some cs
          | None \<Rightarrow> map_option fst (proto_children r))
     | PrototypeValue \<Rightarrow> map_option fst (proto_children r)
     | ArrayValue \<Rightarrow>
         (case proto_children r of
            None \<Rightarrow> None
          | Some (items, own) \<Rightarrow> (case own of Some cs \<Rightarrow> Some cs | None \<Rightarrow> Some items)))"

text \<open>
  \<^verbatim>\<open>if (!Array.isArray(v.children)) v.children = []; v.children.push(id)\<close> on an inherited
  value: the push goes to the array that \<^verbatim>\<open>v.children\<close> reads, a new own array only where
  it read none.
\<close>

definition push_inherited :: "inherited \<Rightarrow> jsstring \<Rightarrow> realm \<Rightarrow> realm" where
  "push_inherited v ident r =
    (case v of
       FunctionValue k \<Rightarrow>
         (case fn_children r k of
            Some cs \<Rightarrow> r\<lparr>fn_children := (fn_children r)(k := Some (cs @ [ident]))\<rparr>
          | None \<Rightarrow>
             (case proto_children r of
                Some (items, own) \<Rightarrow> r\<lparr>proto_children := Some (items @ [ident], own)\<rparr>
              | None \<Rightarrow> r\<lparr>fn_children := (fn_children r)(k := Some [ident])\<rparr>))
     | PrototypeValue \<Rightarrow>
         (case proto_children r of
            Some (items, own) \<Rightarrow> r\<lparr>proto_children := Some (items @ [ident], own)\<rparr>
          | None \<Rightarrow> r\<lparr>proto_children := Some ([ident], None)\<rparr>)
     | ArrayValue \<Rightarrow>
         (case proto_children r of
            None \<Rightarrow> r
          | Some (items, own) \<Rightarrow>
             (case own of
                Some cs \<Rightarrow> r\<lparr>proto_children := Some (items, Some (cs @ [ident]))\<rparr>
              | None \<Rightarrow> r\<lparr>proto_children := Some (items @ [ident], None)\<rparr>)))"

text \<open>
  \<^verbatim>\<open>v.children = v.children.filter(cid => cid !== id)\<close> on an inherited value: \<open>None\<close> is
  the \<^verbatim>\<open>TypeError\<close> of calling \<^verbatim>\<open>filter\<close> on \<^verbatim>\<open>undefined\<close>; otherwise the filtered copy
  becomes the value's own array.
\<close>

definition filter_inherited :: "inherited \<Rightarrow> jsstring \<Rightarrow> realm \<Rightarrow> realm option" where
  "filter_inherited v ident r =
    (case inherited_children r v of
       None \<Rightarrow> None
     | Some cs \<Rightarrow>
        (let kept = filter (\<lambda>cid. cid \<noteq> ident) cs
         in case v of
              FunctionValue k \<Rightarrow> Some (r\<lparr>fn_children := (fn_children r)(k := Some kept)\<rparr>)
            | PrototypeValue \<Rightarrow> Some (r\<lparr>proto_children := Some (kept, None)\<rparr>)
            | ArrayValue \<Rightarrow>
                Some (r\<lparr>proto_children := map_option (\<lambda>(items, own). (items, Some kept)) (proto_children r)\<rparr>)))"

section \<open>Capability tree (src/src/tree/node.js; src/tree/capability_tree.js, in src/unnamed/part_006)\<close>

definition VALID_LEVELS :: "jsstring list" where
  "VALID_LEVELS = [js ''low'', js ''mid'', js ''high'']"

definition VALID_STATUSES :: "jsstring list" where
  "VALID_STATUSES = [js ''active'', js ''candidate'', js ''pruned'']"

text \<open>
  \<^verbatim>\<open>validateNode(node)\<close>: the list of error messages, empty for a valid node. The checks
  that the record type already settles (the four arrays are arrays, \<^verbatim>\<open>trigger_count\<close> is a
  non-negative number, \<^verbatim>\<open>parent_id\<close> is not \<^verbatim>\<open>undefined\<close>) add no message.
\<close>

definition validateNode :: "node \<Rightarrow> jsstring list" where
  "validateNode n =
    (if node_id n = [] then [js ''id is required''] else [])
    @ (if node_name n = [] then [js ''name is required''] else [])
    @ (if level n \<notin> set VALID_LEVELS then [js ''invalid level: '' @ level n] else [])
    @ (if parent_id n = [] then [js ''parent_id is required''] else [])
    @ (if status n \<notin> set VALID_STATUSES then [js ''invalid status: '' @ status n] else [])
    @ (case v_score n of None \<Rightarrow> []
       | Some v \<Rightarrow> if v < 0 \<or> v > 100
                   then [js ''v_score must be null or a number between 0 and 100''] else [])"

record root_node =
  root_id :: jsstring
  root_name :: jsstring
  root_level :: jsstring
  root_children :: "jsstring list"

text \<open>
  \<^verbatim>\<open>this.data\<close>: the root and the object \<^verbatim>\<open>nodes\<close>, whose own properties are kept as
  an association list in insertion order, the order \<^verbatim>\<open>Object.entries\<close> walks for ids that
  are not array indices.
\<close>

record tree =
  tree_root :: root_node
  nodes :: "(jsstring \<times> node) list"

text \<open>The tree the constructor builds when the store holds none.\<close>

definition empty_tree :: tree where
  "empty_tree =
    \<lparr>tree_root = \<lparr>root_id = js ''cap'', root_name = js ''Root'', root_level = js ''high'', root_children = []\<rparr>,
     nodes = []\<rparr>"

datatype tree_error =
  InvalidNode "jsstring list"
| NodeAlreadyExists jsstring
| ParentNotFound jsstring
| TypeError

text \<open>\<^verbatim>\<open>nodes[k].children = f(nodes[k].children)\<close> on the stored node.\<close>

definition update_children :: "jsstring \<Rightarrow> (jsstring list \<Rightarrow> jsstring list) \<Rightarrow> tree \<Rightarrow> tree" where
  "update_children k f t =
    t\<lparr>nodes := map (\<lambda>(k', n). if k' = k then (k', n\<lparr>children := f (children n)\<rparr>) else (k', n)) (nodes t)\<rparr>"

definition update_root_children :: "(jsstring list \<Rightarrow> jsstring list) \<Rightarrow> tree \<Rightarrow> tree" where
  "update_root_children f t = t\<lparr>tree_root := (tree_root t)\<lparr>root_children := f (root_children (tree_root t))\<rparr>\<rparr>"

text \<open>
  \<^verbatim>\<open>this.data.nodes[k]\<close>: the stored node if \<open>k\<close> is an own property, else the value the
  object inherits under that name, else \<^verbatim>\<open>undefined\<close> (\<open>None\<close>). Every value found is
  truthy.
\<close>

datatype node_value = OwnNode node | InheritedValue inherited

definition lookup_node :: "realm \<Rightarrow> tree \<Rightarrow> jsstring \<Rightarrow> node_value option" where
  "lookup_node r t k =
    (case map_of (nodes t) k of
       Some n \<Rightarrow> Some (OwnNode n)
     | None \<Rightarrow> map_option InheritedValue (inherited_property r k))"

text \<open>
  \<^verbatim>\<open>addNode(node)\<close>: each \<^verbatim>\<open>throw\<close> is an \<open>Inl\<close>; otherwise the global objects and the
  tree after the call. A parent id that names an inherited value passes the test
  \<^verbatim>\<open>this.data.nodes[parentId]\<close>, and the id is pushed to that value's \<^verbatim>\<open>children\<close>.
\<close>

definition addNode :: "realm \<Rightarrow> tree \<Rightarrow> node \<Rightarrow> tree_error + realm \<times> tree" where
  "addNode r t n =
    (if validateNode n \<noteq> [] then Inl (InvalidNode (validateNode n))
     else if lookup_node r t (node_id n) \<noteq> None then Inl (NodeAlreadyExists (node_id n))
     else let parentId = parent_id n
          in if parentId = root_id (tree_root t)
             then Inr (r, (update_root_children (\<lambda>cs. cs @ [node_id n]) t)
                            \<lparr>nodes := nodes t @ [(node_id n, n)]\<rparr>)
             else case lookup_node r t parentId of
                    Some (OwnNode p) \<Rightarrow>
                      Inr (r, (update_children parentId (\<lambda>cs. cs @ [node_id n]) t)
                                \<lparr>nodes := nodes (update_children parentId (\<lambda>cs. cs @ [node_id n]) t)
                                            @ [(node_id n, n)]\<rparr>)
                  | Some (InheritedValue v) \<Rightarrow>
                      Inr (push_inherited v (node_id n) r, t\<lparr>nodes := nodes t @ [(node_id n, n)]\<rparr>)
                  | None \<Rightarrow> Inl (ParentNotFound parentId))"

text \<open>
  The end of \<^verbatim>\<open>removeNode\<close>. \<open>detach\<close> filters the reference out of the parent's list;
  \<open>parentId\<close> is \<open>None\<close> where \<^verbatim>\<open>node.parent_id\<close> is \<^verbatim>\<open>undefined\<close>, which is not the
  root's id and as a key reads the property \<^verbatim>\<open>undefined\<close>. \<open>delete_node\<close> is
  \<^verbatim>\<open>delete this.data.nodes[id]\<close>, which removes an own property only.
\<close>

definition detach :: "jsstring option \<Rightarrow> jsstring \<Rightarrow> realm \<Rightarrow> tree \<Rightarrow> (realm \<times> tree) option" where
  "detach parentId ident r t =
    (if parentId = Some (root_id (tree_root t))
     then Some (r, update_root_children (filter (\<lambda>cid. cid \<noteq> ident)) t)
     else let key = (case parentId of None \<Rightarrow> js ''undefined'' | Some p \<Rightarrow> p)
          in case lookup_node r t key of
               None \<Rightarrow> Some (r, t)
             | Some (OwnNode p) \<Rightarrow> Some (r, update_children key (filter (\<lambda>cid. cid \<noteq> ident)) t)
             | Some (InheritedValue v) \<Rightarrow>
                 (case filter_inherited v ident r of
                    None \<Rightarrow> None
                  | Some r' \<Rightarrow> Some (r', t)))"

definition delete_node :: "jsstring \<Rightarrow> tree \<Rightarrow> tree" where
  "delete_node ident t = t\<lparr>nodes := filter (\<lambda>(k, n). k \<noteq> ident) (nodes t)\<rparr>"

text \<open>\<^verbatim>\<open>node.children\<close> as \<^verbatim>\<open>removeNode\<close> copies it, and \<^verbatim>\<open>node.parent_id\<close>.\<close>

definition value_children :: "realm \<Rightarrow> node_value \<Rightarrow> jsstring list" where
  "value_children r v =
    (case v of
       OwnNode n \<Rightarrow> children n
     | InheritedValue i \<Rightarrow> (case inherited_children r i of None \<Rightarrow> [] | Some cs \<Rightarrow> cs))"

definition value_parent_id :: "node_value \<Rightarrow> jsstring option" where
  "value_parent_id v = (case v of OwnNode n \<Rightarrow> Some (parent_id n) | InheritedValue i \<Rightarrow> None)"

text \<open>
  \<^verbatim>\<open>removeNode(id)\<close> recurses into the children before it deletes the node, so on a cyclic
  \<^verbatim>\<open>children\<close> relation it never returns. The first argument bounds the depth of the
  recursion; \<open>None\<close> is a call that needed more. A result \<open>Inl\<close> is a thrown error with the
  state the throw leaves, a result \<open>Inr\<close> the returned truth value with the state after the
  call. \<open>removeChildren\<close> is the \<^verbatim>\<open>for\<close> loop over the copied child ids, which drops each
  call's result.
\<close>

fun removeNode :: "nat \<Rightarrow> realm \<Rightarrow> tree \<Rightarrow> jsstring
      \<Rightarrow> (tree_error \<times> realm \<times> tree + bool \<times> realm \<times> tree) option"
  and removeChildren :: "nat \<Rightarrow> realm \<Rightarrow> tree \<Rightarrow> jsstring list
      \<Rightarrow> (tree_error \<times> realm \<times> tree + realm \<times> tree) option" where
  "removeNode 0 r t ident = None"
| "removeNode (Suc depth) r t ident =
    (case lookup_node r t ident of
       None \<Rightarrow> Some (Inr (False, r, t))
     | Some v \<Rightarrow>
        (case removeChildren depth r t (value_children r v) of
           None \<Rightarrow> None
         | Some (Inl e) \<Rightarrow> Some (Inl e)
         | Some (Inr (r1, t1)) \<Rightarrow>
            (case detach (value_parent_id v) ident r1 t1 of
               None \<Rightarrow> Some (Inl (TypeError, r1, t1))
             | Some (r2, t2) \<Rightarrow> Some (Inr (True, r2, delete_node ident t2)))))"
| "removeChildren depth r t [] = Some (Inr (r, t))"
| "removeChildren depth r t (childId # childIds) =
    (case removeNode depth r t childId of
       None \<Rightarrow> None
     | Some (Inl e) \<Rightarrow> Some (Inl e)
     | Some (Inr (b, r1, t1)) \<Rightarrow> removeChildren depth r1 t1 childIds)"

text \<open>\<^verbatim>\<open>getNode(id)\<close>: the root object, what \<^verbatim>\<open>this.data.nodes[id]\<close> finds, or \<^verbatim>\<open>null\<close>.\<close>

definition getNode :: "realm \<Rightarrow> tree \<Rightarrow> jsstring \<Rightarrow> (root_node + node_value) option" where
  "getNode r t ident =
    (if ident = root_id (tree_root t) then Some (Inl (tree_root t))
     else map_option Inr (lookup_node r t ident))"

text \<open>
  The removal as the specification describes it, on the stored nodes alone: the descendants
  are removed recursively, then the parent's child reference is detached and the node
  deleted. The code agrees with it on a tree none of whose ids is the name of an inherited
  value.
\<close>

definition detach_spec :: "jsstring \<Rightarrow> jsstring \<Rightarrow> tree \<Rightarrow> tree" where
  "detach_spec parentId ident t =
    (if parentId = root_id (tree_root t) then update_root_children (filter (\<lambda>cid. cid \<noteq> ident)) t
     else if map_of (nodes t) parentId \<noteq> None
     then update_children parentId (filter (\<lambda>cid. cid \<noteq> ident)) t
     else t)"

fun removeNode_spec :: "nat \<Rightarrow> tree \<Rightarrow> jsstring \<Rightarrow> (bool \<times> tree) option"
  and removeChildren_spec :: "nat \<Rightarrow> tree \<Rightarrow> jsstring list \<Rightarrow> tree option" where
  "removeNode_spec 0 t ident = None"
| "removeNode_spec (Suc depth) t ident =
    (case map_of (nodes t) ident of
       None \<Rightarrow> Some (False, t)
     | Some n \<Rightarrow>
        (case removeChildren_spec depth t (children n) of
           None \<Rightarrow> None
         | Some t1 \<Rightarrow> Some (True, delete_node ident (detach_spec (parent_id n) ident t1))))"
| "removeChildren_spec depth t [] = Some t"
| "removeChildren_spec depth t (childId # childIds) =
    (case removeNode_spec depth t childId of
       None \<Rightarrow> None
     | Some r \<Rightarrow> removeChildren_spec depth (snd r) childIds)"

text \<open>
  The test of \<^verbatim>\<open>pruneStale\<close> on one node, after the two \<^verbatim>\<open>continue\<close> guards; \<open>now\<close> is
  \<^verbatim>\<open>Date.now()\<close>.
\<close>

definition stale :: "int \<Rightarrow> real \<Rightarrow> node \<Rightarrow> bool" where
  "stale now threshold n =
    (if status n = js ''pruned'' then False
     else case last_triggered n of
       None \<Rightarrow> False
     | Some lastTriggered \<Rightarrow>
         let thresholdMs = threshold * 24 * 60 * 60 * 1000;
             elapsed = now - lastTriggered
         in real_of_int elapsed > thresholdMs
            \<and> (case v_score n of None \<Rightarrow> True | Some v \<Rightarrow> v < 40))"

text \<open>\<^verbatim>\<open>pruneStale(threshold)\<close>: the pruned ids in the order of the walk, and the tree after it.\<close>

definition pruneStale :: "int \<Rightarrow> real \<Rightarrow> tree \<Rightarrow> jsstring list \<times> tree" where
  "pruneStale now threshold t =
    (map fst (filter (\<lambda>(k, n). stale now threshold n) (nodes t)),
     t\<lparr>nodes := map (\<lambda>(k, n). if stale now threshold n then (k, n\<lparr>status := js ''pruned''\<rparr>) else (k, n))
                    (nodes t)\<rparr>)"

text \<open>
  A well-formed tree: the ids are distinct and none is the root's; each id in a
  \<^verbatim>\<open>children\<close> list names a stored node whose \<^verbatim>\<open>parent_id\<close> is the owner of the list; and
  the \<^verbatim>\<open>children\<close> relation has no cycle (\<open>height_le\<close>: no chain of children from the node is
  longer than the bound).
\<close>

fun height_le :: "nat \<Rightarrow> tree \<Rightarrow> jsstring \<Rightarrow> bool" where
  "height_le 0 t k = False"
| "height_le (Suc h) t k =
    (case map_of (nodes t) k of
       None \<Rightarrow> True
     | Some n \<Rightarrow> list_all (height_le h t) (children n))"

definition child_of :: "tree \<Rightarrow> jsstring \<Rightarrow> jsstring \<Rightarrow> bool" where
  "child_of t owner c = (case map_of (nodes t) c of None \<Rightarrow> False | Some n \<Rightarrow> parent_id n = owner)"

definition wf_tree :: "tree \<Rightarrow> bool" where
  "wf_tree t =
    (distinct (map fst (nodes t))
     \<and> map_of (nodes t) (root_id (tree_root t)) = None
     \<and> list_all (child_of t (root_id (tree_root t))) (root_children (tree_root t))
     \<and> list_all (\<lambda>(k, n). list_all (child_of t k) (children n)) (nodes t)
     \<and> list_all (\<lambda>(k, n). height_le (length (nodes t)) t k) (nodes t))"

text \<open>
  A tree none of whose ids (of a node, of a node's parent, in a \<^verbatim>\<open>children\<close> list) is the
  name of an inherited value.
\<close>

definition plain_ids :: "tree \<Rightarrow> bool" where
  "plain_ids t \<longleftrightarrow>
    list_all (\<lambda>(k, n). \<not> inherited_name k \<and> \<not> inherited_name (parent_id n)
                        \<and> list_all (\<lambda>c. \<not> inherited_name c) (children n)) (nodes t)"

text \<open>
  What a removal may do to a tree: drop nodes, and drop ids from \<^verbatim>\<open>children\<close> lists.
  Every surviving node keeps its \<^verbatim>\<open>parent_id\<close>.
\<close>

definition shrinks :: "tree \<Rightarrow> tree \<Rightarrow> bool" where
  "shrinks t' t \<longleftrightarrow>
    root_id (tree_root t') = root_id (tree_root t)
    \<and> set (root_children (tree_root t')) \<subseteq> set (root_children (tree_root t))
    \<and> (\<forall>k n'. map_of (nodes t') k = Some n' \<longrightarrow>
          (\<exists>n. map_of (nodes t) k = Some n \<and> parent_id n' = parent_id n
               \<and> set (children n') \<subseteq> set (children n)))"

text \<open>
  A removal drops from the lists only ids of nodes it deletes, and with a node it deletes
  the node's children; so it deletes every descendant.
\<close>

definition pruned_only :: "tree \<Rightarrow> tree \<Rightarrow> bool" where
  "pruned_only t' t \<longleftrightarrow>
    (\<forall>q n n' c. map_of (nodes t) q = Some n \<and> map_of (nodes t') q = Some n'
        \<and> c \<in> set (children n) \<and> c \<notin> set (children n') \<longrightarrow> map_of (nodes t') c = None)"

definition dead_closed :: "tree \<Rightarrow> tree \<Rightarrow> bool" where
  "dead_closed t' t \<longleftrightarrow>
    (\<forall>q n c. map_of (nodes t) q = Some n \<and> map_of (nodes t') q = None
        \<and> c \<in> set (children n) \<longrightarrow> map_of (nodes t') c = None)"

text \<open>The descendants of a node: what a chain of \<^verbatim>\<open>children\<close> lists reaches from it.\<close>

inductive descendant :: "tree \<Rightarrow> jsstring \<Rightarrow> jsstring \<Rightarrow> bool"
  for t :: tree and k :: jsstring where
  child: "map_of (nodes t) k = Some n \<Longrightarrow> c \<in> set (children n) \<Longrightarrow> descendant t k c"
| step: "descendant t k x \<Longrightarrow> map_of (nodes t) x = Some n \<Longrightarrow> c \<in> set (children n)
         \<Longrightarrow> descendant t k c"

text \<open>\<^verbatim>\<open>createNode(params)\<close> for the three parameters the tree tests pass, and the test tree.\<close>

definition createNode :: "jsstring \<Rightarrow> jsstring \<Rightarrow> jsstring \<Rightarrow> jsstring \<Rightarrow> node" where
  "createNode ident nm lvl parent =
    \<lparr>node_id = ident, node_name = nm, level = lvl, parent_id = parent, node_input = [],
     node_output = [], preconditions = [], failure_boundary = [], linked_genes = [],
     linked_skills = [], children = [], status = js ''active'', v_score = None,
     last_triggered = None, trigger_count = 0\<rparr>"

definition test_tree :: tree where
  "test_tree =
    \<lparr>tree_root = \<lparr>root_id = js ''cap'', root_name = js ''Root'', root_level = js ''high'',
                   root_children = [js ''cap.a'', js ''cap.b'']\<rparr>,
     nodes =
       [(js ''cap.a'', (createNode (js ''cap.a'') (js ''A'') (js ''mid'') (js ''cap''))
                         \<lparr>children := [js ''cap.a.x'']\<rparr>),
        (js ''cap.b'', createNode (js ''cap.b'') (js ''B'') (js ''mid'') (js ''cap'')),
        (js ''cap.a.x'', createNode (js ''cap.a.x'') (js ''AX'') (js ''low'') (js ''cap.a''))]\<rparr>"

text \<open>
  A tree with a node last triggered at the epoch and a node never triggered, both without a
  value score.
\<close>

definition stale_tree :: tree where
  "stale_tree =
    \<lparr>tree_root = \<lparr>root_id = js ''cap'', root_name = js ''Root'', root_level = js ''high'',
                   root_children = [js ''cap.old'', js ''cap.new'']\<rparr>,
     nodes =
       [(js ''cap.old'', (createNode (js ''cap.old'') (js ''Old'') (js ''low'') (js ''cap''))
                           \<lparr>last_triggered := Some 0\<rparr>),
        (js ''cap.new'', createNode (js ''cap.new'') (js ''New'') (js ''low'') (js ''cap''))]\<rparr>"

section \<open>Pruner (src/src/tree/pruner.js)\<close>

definition CANDIDATE_PRUNE_DAYS :: real where "CANDIDATE_PRUNE_DAYS = 30"
definition AUTO_PRUNE_DAYS :: real where "AUTO_PRUNE_DAYS = 60"
definition PRUNE_VSCORE_THRESHOLD :: real where "PRUNE_VSCORE_THRESHOLD = 40"
definition MERGE_SIMILARITY_THRESHOLD :: real where "MERGE_SIMILARITY_THRESHOLD = 0.8"

text \<open>The code units that \<^verbatim>\<open>\s\<close> matches: white space and line terminators.\<close>

definition is_space :: "nat \<Rightarrow> bool" where
  "is_space c =
    (c = 9 \<or> c = 10 \<or> c = 11 \<or> c = 12 \<or> c = 13 \<or> c = 32 \<or> c = 160 \<or> c = 5760
     \<or> (8192 \<le> c \<and> c \<le> 8202) \<or> c = 8232 \<or> c = 8233 \<or> c = 8239 \<or> c = 8287
     \<or> c = 12288 \<or> c = 65279)"

text \<open>
  \<^verbatim>\<open>toLowerCase()\<close> on the letters A to Z; code units outside ASCII are left as they are
  (the model does not carry the Unicode case tables).
\<close>

definition toLowerCase :: "jsstring \<Rightarrow> jsstring" where
  "toLowerCase s = map (\<lambda>c. if 65 \<le> c \<and> c \<le> 90 then c + 32 else c) s"

text \<open>
  \<^verbatim>\<open>s.split(/[\s.]+/).filter(Boolean)\<close>: the maximal runs of code units that are neither
  white space nor a dot. The second argument is the token being read.
\<close>

fun split_tokens :: "jsstring \<Rightarrow> jsstring \<Rightarrow> jsstring list" where
  "split_tokens [] cur = (if cur = [] then [] else [cur])"
| "split_tokens (c # cs) cur =
    (if is_space c \<or> c = 46
     then (if cur = [] then split_tokens cs [] else cur # split_tokens cs [])
     else split_tokens cs (cur @ [c]))"

text \<open>
  \<^verbatim>\<open>tokenize(name)\<close>. The \<^verbatim>\<open>Set\<close> is a list without duplicates; the source reads only its
  size and its membership test.
\<close>

definition tokenize :: "jsstring \<Rightarrow> jsstring list" where
  "tokenize nm = (if nm = [] then [] else remdups (split_tokens (toLowerCase nm) []))"

definition jaccardSimilarity :: "jsstring list \<Rightarrow> jsstring list \<Rightarrow> real" where
  "jaccardSimilarity setA setB =
    (if length setA = 0 \<and> length setB = 0 then 1
     else if length setA = 0 \<or> length setB = 0 then 0
     else let intersection = length (filter (\<lambda>item. item \<in> set setB) setA);
              union = length setA + length setB - intersection
          in if union = 0 then 0 else real intersection / real union)"

text \<open>\<^verbatim>\<open>daysSinceTriggered(node)\<close>; \<open>None\<close> is \<^verbatim>\<open>Infinity\<close>.\<close>

definition daysSinceTriggered :: "int \<Rightarrow> node \<Rightarrow> real option" where
  "daysSinceTriggered now n =
    (case last_triggered n of
       None \<Rightarrow> None
     | Some lastMs \<Rightarrow> Some (real_of_int (now - lastMs) / (24 * 60 * 60 * 1000)))"

definition days_gt :: "real option \<Rightarrow> real \<Rightarrow> bool" where
  "days_gt days bound = (case days of None \<Rightarrow> True | Some x \<Rightarrow> x > bound)"

record pruning =
  candidate_prune :: "node list"
  auto_prune :: "node list"
  merge_suggestions :: "(jsstring \<times> jsstring) list"

text \<open>The two nested loops over \<^verbatim>\<open>activeNodes\<close>: for each node, the later nodes it resembles.\<close>

fun merge_pairs :: "node list \<Rightarrow> (jsstring \<times> jsstring) list" where
  "merge_pairs [] = []"
| "merge_pairs (a # rest) =
    map (\<lambda>b. (node_id a, node_id b))
      (filter (\<lambda>b. jaccardSimilarity (tokenize (node_name a)) (tokenize (node_name b))
                     > MERGE_SIMILARITY_THRESHOLD) rest)
    @ merge_pairs rest"

definition analyzePruning :: "int \<Rightarrow> node list \<Rightarrow> pruning" where
  "analyzePruning now ns =
    (let activeNodes = filter (\<lambda>n. status n \<noteq> js ''pruned'') ns
     in \<lparr>candidate_prune =
           filter (\<lambda>n. \<not> days_gt (daysSinceTriggered now n) AUTO_PRUNE_DAYS
                       \<and> days_gt (daysSinceTriggered now n) CANDIDATE_PRUNE_DAYS
                       \<and> (case v_score n of None \<Rightarrow> True | Some v \<Rightarrow> v < PRUNE_VSCORE_THRESHOLD))
                  activeNodes,
         auto_prune = filter (\<lambda>n. days_gt (daysSinceTriggered now n) AUTO_PRUNE_DAYS) activeNodes,
         merge_suggestions = merge_pairs activeNodes\<rparr>)"

text \<open>The two node names of the specification's merge example.\<close>

definition rich_a :: node where
  "rich_a = createNode (js ''cap.rich'') (js ''Rich Messaging Handler'') (js ''mid'') (js ''cap'')"

definition rich_b :: node where
  "rich_b = createNode (js ''cap.handler'') (js ''Handler for rich messaging'') (js ''mid'') (js ''cap'')"

section \<open>Asset store (src/src/gep/store.js)\<close>

subsection \<open>The platform's JSON.parse\<close>

text \<open>
  \<^verbatim>\<open>JSON.parse\<close> is the platform's, not the repository's. It is modelled by a
  recursive-descent parser of the JSON grammar (ECMA-404) over code units: \<open>None\<close> is the
  \<^verbatim>\<open>SyntaxError\<close> it throws. A number keeps its lexeme, since the store never computes
  with it. The parser's first argument bounds the number of nested and chained calls; twice
  the length of the text is ample, as every call reads at least one code unit.
\<close>

datatype json =
  JNull
| JBool bool
| JNumber jsstring
| JString jsstring
| JArray "json list"
| JObject "(jsstring \<times> json) list"

definition is_json_ws :: "nat \<Rightarrow> bool" where
  "is_json_ws c = (c = 32 \<or> c = 9 \<or> c = 10 \<or> c = 13)"

definition skip_ws :: "jsstring \<Rightarrow> jsstring" where
  "skip_ws s = dropWhile is_json_ws s"

definition is_digit :: "nat \<Rightarrow> bool" where
  "is_digit c = (48 \<le> c \<and> c \<le> 57)"

definition hex_digit :: "nat \<Rightarrow> nat option" where
  "hex_digit c =
    (if 48 \<le> c \<and> c \<le> 57 then Some (c - 48)
     else if 65 \<le> c \<and> c \<le> 70 then Some (c - 55)
     else if 97 \<le> c \<and> c \<le> 102 then Some (c - 87)
     else None)"

text \<open>The characters of a string after its opening quote, up to the closing one.\<close>

fun parse_string_body :: "jsstring \<Rightarrow> (jsstring \<times> jsstring) option" where
  "parse_string_body [] = None"
| "parse_string_body (c # cs) =
    (if c = 34 then Some ([], cs)
     else if c = 92 then
       (case cs of
          [] \<Rightarrow> None
        | e # es \<Rightarrow>
           if e = 117 then
             (case es of
                h1 # h2 # h3 # h4 # r \<Rightarrow>
                  (case (hex_digit h1, hex_digit h2, hex_digit h3, hex_digit h4) of
                     (Some a, Some b, Some c', Some d) \<Rightarrow>
                       map_option (\<lambda>(str, r'). ((((a * 16 + b) * 16 + c') * 16 + d) # str, r'))
                         (parse_string_body r)
                   | _ \<Rightarrow> None)
              | _ \<Rightarrow> None)
           else
             (case (if e = 34 \<or> e = 92 \<or> e = 47 then Some e
                    else if e = 98 then Some 8 else if e = 102 then Some 12
                    else if e = 110 then Some 10 else if e = 114 then Some 13
                    else if e = 116 then Some 9 else None) of
                None \<Rightarrow> None
              | Some u \<Rightarrow> map_option (\<lambda>(str, r'). (u # str, r')) (parse_string_body es)))
     else if c < 32 then None
     else map_option (\<lambda>(str, r'). (c # str, r')) (parse_string_body cs))"

text \<open>A number: \<^verbatim>\<open>-? (0 | [1-9][0-9]*) (. [0-9]+)? ([eE] [+-]? [0-9]+)?\<close>; its lexeme and the rest.\<close>

definition parse_number :: "jsstring \<Rightarrow> (jsstring \<times> jsstring) option" where
  "parse_number s =
    (let (sign, s1) = (case s of c # cs \<Rightarrow> if c = 45 then ([c], cs) else ([], s) | [] \<Rightarrow> ([], s));
         ip = takeWhile is_digit s1;
         s2 = dropWhile is_digit s1
     in if ip = [] \<or> (hd ip = 48 \<and> length ip > 1) then None
        else let (frac, s3) =
                   (case s2 of
                      c # cs \<Rightarrow> if c = 46 then (Some (c # takeWhile is_digit cs), dropWhile is_digit cs)
                                else (None, s2)
                    | [] \<Rightarrow> (None, s2))
             in if frac = Some [46] then None
                else let (ex, s4) =
                           (case s3 of
                              c # cs \<Rightarrow>
                                if c = 101 \<or> c = 69 then
                                  (case cs of
                                     g # gs \<Rightarrow>
                                       if g = 43 \<or> g = 45
                                       then (Some (c # g # takeWhile is_digit gs), dropWhile is_digit gs, takeWhile is_digit gs = [])
                                       else (Some (c # takeWhile is_digit cs), dropWhile is_digit cs, takeWhile is_digit cs = [])
                                   | [] \<Rightarrow> (Some [c], [], True))
                                else (None, s3, False)
                            | [] \<Rightarrow> (None, s3, False))
                     in if snd s4 then None
                        else Some (sign @ ip @ (case frac of None \<Rightarrow> [] | Some f \<Rightarrow> f)
                                     @ (case ex of None \<Rightarrow> [] | Some e \<Rightarrow> e), fst s4))"

fun parse_value :: "nat \<Rightarrow> jsstring \<Rightarrow> (json \<times> jsstring) option"
  and parse_elements :: "nat \<Rightarrow> jsstring \<Rightarrow> json list \<Rightarrow> (json \<times> jsstring) option"
  and parse_members :: "nat \<Rightarrow> jsstring \<Rightarrow> (jsstring \<times> json) list \<Rightarrow> (json \<times> jsstring) option" where
  "parse_value 0 s = None"
| "parse_value (Suc k) s =
    (case skip_ws s of
       [] \<Rightarrow> None
     | c # cs \<Rightarrow>
        if c = 123 then
          (case skip_ws cs of
             [] \<Rightarrow> None
           | d # ds \<Rightarrow> if d = 125 then Some (JObject [], ds) else parse_members k (d # ds) [])
        else if c = 91 then
          (case skip_ws cs of
             [] \<Rightarrow> None
           | d # ds \<Rightarrow> if d = 93 then Some (JArray [], ds) else parse_elements k (d # ds) [])
        else if c = 34 then map_option (\<lambda>(str, r). (JString str, r)) (parse_string_body cs)
        else if startsWith (c # cs) (js ''true'') then Some (JBool True, drop 4 (c # cs))
        else if startsWith (c # cs) (js ''false'') then Some (JBool False, drop 5 (c # cs))
        else if startsWith (c # cs) (js ''null'') then Some (JNull, drop 4 (c # cs))
        else map_option (\<lambda>(lexeme, r). (JNumber lexeme, r)) (parse_number (c # cs)))"
| "parse_elements 0 s acc = None"
| "parse_elements (Suc k) s acc =
    (case parse_value k s of
       None \<Rightarrow> None
     | Some (v, r) \<Rightarrow>
        (case skip_ws r of
           [] \<Rightarrow> None
         | c # cs \<Rightarrow>
            if c = 44 then parse_elements k cs (acc @ [v])
            else if c = 93 then Some (JArray (acc @ [v]), cs)
            else None))"
| "parse_members 0 s acc = None"
| "parse_members (Suc k) s acc =
    (case skip_ws s of
       [] \<Rightarrow> None
     | q # qs \<Rightarrow>
        if q \<noteq> 34 then None
        else (case parse_string_body qs of
                None \<Rightarrow> None
              | Some (name, r0) \<Rightarrow>
                 (case skip_ws r0 of
                    [] \<Rightarrow> None
                  | c # cs \<Rightarrow>
                     if c \<noteq> 58 then None
                     else (case parse_value k cs of
                             None \<Rightarrow> None
                           | Some (v, r) \<Rightarrow>
                              (case skip_ws r of
                                 [] \<Rightarrow> None
                               | e # es \<Rightarrow>
                                  if e = 44 then parse_members k es (acc @ [(name, v)])
                                  else if e = 125 then Some (JObject (acc @ [(name, v)]), es)
                                  else None)))))"

definition JSON_parse :: "jsstring \<Rightarrow> json option" where
  "JSON_parse s =
    (case parse_value (2 * length s + 2) s of
       None \<Rightarrow> None
     | Some (v, r) \<Rightarrow> if skip_ws r = [] then Some v else None)"

subsection \<open>Reading the four assets\<close>

text \<open>
  The file system is a map from paths to file contents: \<^verbatim>\<open>fs.existsSync(p)\<close> is
  \<open>disk p \<noteq> None\<close> and \<^verbatim>\<open>fs.readFileSync(p, 'utf-8')\<close> reads the content. A thrown
  \<^verbatim>\<open>SyntaxError\<close> is \<open>Inl SyntaxError\<close>.
\<close>

datatype store_error = SyntaxError

definition assetPath :: "jsstring \<Rightarrow> jsstring" where
  "assetPath filename = js ''assets/'' @ filename"

text \<open>\<^verbatim>\<open>s.trim()\<close> and \<^verbatim>\<open>s.endsWith(p)\<close>.\<close>

definition trim :: "jsstring \<Rightarrow> jsstring" where
  "trim s = rev (dropWhile is_space (rev (dropWhile is_space s)))"

definition endsWith :: "jsstring \<Rightarrow> jsstring \<Rightarrow> bool" where
  "endsWith s p = (length p \<le> length s \<and> drop (length s - length p) s = p)"

text \<open>\<^verbatim>\<open>s.split(d)\<close> for a one-unit separator; the second argument is the piece being read.\<close>

fun split_on :: "nat \<Rightarrow> jsstring \<Rightarrow> jsstring \<Rightarrow> jsstring list" where
  "split_on d [] cur = [cur]"
| "split_on d (c # cs) cur = (if c = d then cur # split_on d cs [] else split_on d cs (cur @ [c]))"

definition empty_for :: "jsstring \<Rightarrow> json" where
  "empty_for filename = (if endsWith filename (js ''.json'') then JArray [] else JObject [])"

definition readJSON :: "(jsstring \<rightharpoonup> jsstring) \<Rightarrow> jsstring \<Rightarrow> store_error + json" where
  "readJSON disk filename =
    (case disk (assetPath filename) of
       None \<Rightarrow> Inr (empty_for filename)
     | Some content \<Rightarrow>
        let raw = trim content
        in if raw = [] then Inr (empty_for filename)
           else (case JSON_parse raw of None \<Rightarrow> Inl SyntaxError | Some v \<Rightarrow> Inr v))"

text \<open>\<^verbatim>\<open>lines.map(line => JSON.parse(line))\<close>: the first line that does not parse throws.\<close>

fun parse_lines :: "jsstring list \<Rightarrow> store_error + json list" where
  "parse_lines [] = Inr []"
| "parse_lines (line # rest) =
    (case JSON_parse line of
       None \<Rightarrow> Inl SyntaxError
     | Some v \<Rightarrow> (case parse_lines rest of Inl e \<Rightarrow> Inl e | Inr vs \<Rightarrow> Inr (v # vs)))"

definition readJSONL :: "(jsstring \<rightharpoonup> jsstring) \<Rightarrow> jsstring \<Rightarrow> store_error + json list" where
  "readJSONL disk filename =
    (case disk (assetPath filename) of
       None \<Rightarrow> Inr []
     | Some content \<Rightarrow>
        let raw = trim content
        in if raw = [] then Inr []
           else parse_lines (filter (\<lambda>line. line \<noteq> []) (split_on 10 raw [])))"

definition loadGenes :: "(jsstring \<rightharpoonup> jsstring) \<Rightarrow> store_error + json" where
  "loadGenes disk = readJSON disk (js ''genes.json'')"

definition loadCapsules :: "(jsstring \<rightharpoonup> jsstring) \<Rightarrow> store_error + json" where
  "loadCapsules disk = readJSON disk (js ''capsules.json'')"

definition loadEvents :: "(jsstring \<rightharpoonup> jsstring) \<Rightarrow> store_error + json list" where
  "loadEvents disk = readJSONL disk (js ''events.jsonl'')"

definition loadCapabilityTree :: "(jsstring \<rightharpoonup> jsstring) \<Rightarrow> store_error + json" where
  "loadCapabilityTree disk = readJSON disk (js ''capability_tree.json'')"

text \<open>A store in which a write was cut short: every asset holds the text \<^verbatim>\<open>[{\<close>.\<close>

definition truncated_files :: "jsstring \<rightharpoonup> jsstring" where
  "truncated_files = (\<lambda>p. Some (js ''[{''))"

text \<open>
  What a store file can hold: nothing (the file is missing, or blank once trimmed), or a
  text that \<^verbatim>\<open>JSON.parse\<close> rejects; for the line-delimited event log, a text with a
  non-empty line that \<^verbatim>\<open>JSON.parse\<close> rejects.
\<close>

definition missing_or_blank :: "(jsstring \<rightharpoonup> jsstring) \<Rightarrow> jsstring \<Rightarrow> bool" where
  "missing_or_blank disk filename =
    (case disk (assetPath filename) of None \<Rightarrow> True | Some content \<Rightarrow> trim content = [])"

definition unparsable :: "(jsstring \<rightharpoonup> jsstring) \<Rightarrow> jsstring \<Rightarrow> bool" where
  "unparsable disk filename =
    (case disk (assetPath filename) of
       None \<Rightarrow> False
     | Some content \<Rightarrow> trim content \<noteq> [] \<and> JSON_parse (trim content) = None)"

definition unparsable_line :: "(jsstring \<rightharpoonup> jsstring) \<Rightarrow> jsstring \<Rightarrow> bool" where
  "unparsable_line disk filename =
    (case disk (assetPath filename) of
       None \<Rightarrow> False
     | Some content \<Rightarrow>
        trim content \<noteq> []
        \<and> list_ex (\<lambda>line. line \<noteq> [] \<and> JSON_parse line = None) (split_on 10 (trim content) []))"

section \<open>Signal extractor (src/src/core/signals.js)\<close>

text \<open>
  A session-log entry is an untyped object; the record has one field for each property
  \<^verbatim>\<open>extractSignals\<close> reads, \<open>None\<close> where the property is missing. \<^verbatim>\<open>entry.message\<close> is
  missing, a string (the simplified format) or a message object (the native format).
\<close>

record block =
  block_type :: "jsstring option"
  block_text :: "jsstring option"
  block_name :: "jsstring option"

datatype msg_content = NoContent | TextContent jsstring | BlockContent "block list"

record message =
  role :: "jsstring option"
  msg_content :: msg_content
  stopReason :: "jsstring option"
  errorMessage :: "jsstring option"

datatype entry_message = NoMessage | TextMessage jsstring | ObjectMessage message

record entry =
  entry_type :: "jsstring option"
  entry_message :: entry_message
  entry_level :: "jsstring option"
  detail :: "jsstring option"
  entry_status :: "jsstring option"
  entry_result :: "jsstring option"
  tool_name :: "jsstring option"
  mutation_applied :: bool
  solidify_failed :: bool
  entry_name :: "jsstring option"
  customType :: "jsstring option"
  data_name :: "jsstring option"

text \<open>Truthiness of a string property, and of \<^verbatim>\<open>entry.message\<close>.\<close>

definition truthy :: "jsstring option \<Rightarrow> bool" where
  "truthy x = (case x of None \<Rightarrow> False | Some s \<Rightarrow> s \<noteq> [])"

definition message_truthy :: "entry_message \<Rightarrow> bool" where
  "message_truthy m = (case m of NoMessage \<Rightarrow> False | TextMessage s \<Rightarrow> s \<noteq> [] | ObjectMessage _ \<Rightarrow> True)"

text \<open>
  The properties of \<^verbatim>\<open>entry.message\<close> read through \<^verbatim>\<open>msg.p\<close> or \<^verbatim>\<open>e.message?.p\<close>: a string
  has none of them.
\<close>

definition message_role :: "entry \<Rightarrow> jsstring option" where
  "message_role e = (case entry_message e of ObjectMessage m \<Rightarrow> role m | _ \<Rightarrow> None)"

definition message_stopReason :: "entry \<Rightarrow> jsstring option" where
  "message_stopReason e = (case entry_message e of ObjectMessage m \<Rightarrow> stopReason m | _ \<Rightarrow> None)"

definition message_errorMessage :: "entry \<Rightarrow> jsstring option" where
  "message_errorMessage e = (case entry_message e of ObjectMessage m \<Rightarrow> errorMessage m | _ \<Rightarrow> None)"

definition message_blocks :: "entry \<Rightarrow> block list" where
  "message_blocks e =
    (case entry_message e of
       ObjectMessage m \<Rightarrow> (case msg_content m of BlockContent bs \<Rightarrow> bs | _ \<Rightarrow> [])
     | _ \<Rightarrow> [])"

text \<open>The \<^verbatim>\<open>Set\<close> of signals, in insertion order.\<close>

definition add_signal :: "jsstring \<Rightarrow> jsstring list \<Rightarrow> jsstring list" where
  "add_signal s sigs = (if s \<in> set sigs then sigs else sigs @ [s])"

subsection \<open>The feature-request pattern\<close>

text \<open>
  \<^verbatim>\<open>FEATURE_KEYWORDS = /\b(feature|ability|add|...)\b/i\<close> with three more alternatives,
  the Chinese words for function, ability and add. \<^verbatim>\<open>\b\<close> holds between a word character
  (\<^verbatim>\<open>[A-Za-z0-9_]\<close>) and a neighbour that is none, the ends of the text counting as none.
  Under \<^verbatim>\<open>/i\<close> an ASCII letter matches both of its cases and nothing else.
\<close>

definition FEATURE_WORDS :: "jsstring list" where
  "FEATURE_WORDS =
    [js ''feature'', js ''ability'', js ''add'',
     [0x529F, 0x80FD], [0x80FD, 0x529B], [0x6DFB, 0x52A0]]"

definition is_word_char :: "nat \<Rightarrow> bool" where
  "is_word_char c = ((97 \<le> c \<and> c \<le> 122) \<or> (65 \<le> c \<and> c \<le> 90) \<or> (48 \<le> c \<and> c \<le> 57) \<or> c = 95)"

definition word_before :: "nat option \<Rightarrow> bool" where
  "word_before p = (case p of None \<Rightarrow> False | Some c \<Rightarrow> is_word_char c)"

definition word_next :: "jsstring \<Rightarrow> bool" where
  "word_next s = (case s of [] \<Rightarrow> False | c # _ \<Rightarrow> is_word_char c)"

text \<open>The word \<open>w\<close> matches at the head of \<open>s\<close>, whose preceding code unit is \<open>prev\<close>.\<close>

definition word_at :: "nat option \<Rightarrow> jsstring \<Rightarrow> jsstring \<Rightarrow> bool" where
  "word_at prev s w =
    (w \<noteq> [] \<and> length w \<le> length s \<and> toLowerCase (take (length w) s) = w
     \<and> word_before prev \<noteq> is_word_char (hd s)
     \<and> is_word_char (s ! (length w - 1)) \<noteq> word_next (drop (length w) s))"

fun feature_scan :: "nat option \<Rightarrow> jsstring \<Rightarrow> bool" where
  "feature_scan prev [] = False"
| "feature_scan prev (c # cs) =
    (list_ex (word_at prev (c # cs)) FEATURE_WORDS \<or> feature_scan (Some c) cs)"

definition FEATURE_KEYWORDS_test :: "jsstring \<Rightarrow> bool" where
  "FEATURE_KEYWORDS_test s = feature_scan None s"

text \<open>\<^verbatim>\<open>xs.join(' ')\<close>.\<close>

fun join_space :: "jsstring list \<Rightarrow> jsstring" where
  "join_space [] = []"
| "join_space [x] = x"
| "join_space (x # y # ys) = x @ [32] @ join_space (y # ys)"

definition extractText :: "entry \<Rightarrow> jsstring" where
  "extractText e =
    (case entry_message e of
       NoMessage \<Rightarrow> []
     | TextMessage s \<Rightarrow> []
     | ObjectMessage m \<Rightarrow>
        (case msg_content m of
           TextContent s \<Rightarrow> s
         | BlockContent bs \<Rightarrow>
            join_space (map (\<lambda>c. the (block_text c))
              (filter (\<lambda>c. block_type c = Some (js ''text'') \<and> truthy (block_text c)) bs))
         | NoContent \<Rightarrow> []))"

subsection \<open>The passes of extractSignals\<close>

text \<open>
  \<^verbatim>\<open>shortDetail.replace(/[^a-zA-Z0-9_\u4e00-\u9fff]/g, '_').slice(0, 50)\<close> on the detail cut
  to 80 code units.
\<close>

definition normalize_detail :: "jsstring \<Rightarrow> jsstring" where
  "normalize_detail d =
    (let shortDetail = (if length d > 80 then take 80 d else d)
     in take 50 (map (\<lambda>c. if is_word_char c \<or> (0x4E00 \<le> c \<and> c \<le> 0x9FFF) then c else 95) shortDetail))"

text \<open>
  The first loop, on one entry. The state is the signal set and the error details counted
  so far (\<^verbatim>\<open>errorDetailCounts\<close>, as the list of the details counted).
\<close>

definition error_step :: "entry \<Rightarrow> jsstring list \<times> jsstring list \<Rightarrow> jsstring list \<times> jsstring list" where
  "error_step e st =
    (let st1 =
       (if entry_type e = Some (js ''message'') \<and> message_truthy (entry_message e)
           \<and> (message_stopReason e = Some (js ''error'') \<or> truthy (message_errorMessage e))
        then let sigs = add_signal (js ''log_error'') (fst st);
                 d = (if truthy (message_errorMessage e) then the (message_errorMessage e)
                      else if truthy (message_stopReason e) then the (message_stopReason e)
                      else [])
             in if d \<noteq> []
                then (add_signal (js ''errsig:'' @ normalize_detail d) sigs, snd st @ [normalize_detail d])
                else (sigs, snd st)
        else st)
     in if entry_level e = Some (js ''error'')
           \<or> (entry_type e = Some (js ''error'') \<and> \<not> message_truthy (entry_message e))
        then let sigs = add_signal (js ''log_error'') (fst st1)
             in if truthy (detail e)
                then (add_signal (js ''errsig:'' @ the (detail e)) sigs, snd st1 @ [the (detail e)])
                else (sigs, snd st1)
        else st1)"

definition feature_step :: "entry \<Rightarrow> jsstring list \<Rightarrow> jsstring list" where
  "feature_step e sigs =
    (let sigs1 =
       (if entry_type e = Some (js ''message'') \<and> message_role e = Some (js ''user'')
           \<and> FEATURE_KEYWORDS_test (extractText e)
        then add_signal (js ''user_feature_request'') sigs else sigs)
     in case entry_message e of
          TextMessage s \<Rightarrow>
            if entry_type e = Some (js ''user_request'') \<and> FEATURE_KEYWORDS_test s
            then add_signal (js ''user_feature_request'') sigs1 else sigs1
        | _ \<Rightarrow> sigs1)"

definition is_assistant :: "entry \<Rightarrow> bool" where
  "is_assistant e = (entry_type e = Some (js ''message'') \<and> message_role e = Some (js ''assistant''))"

definition is_error_msg :: "entry \<Rightarrow> bool" where
  "is_error_msg e = (message_stopReason e = Some (js ''error'') \<or> truthy (message_errorMessage e))"

text \<open>\<^verbatim>\<open>xs.slice(-n)\<close>.\<close>

definition last_n :: "nat \<Rightarrow> 'a list \<Rightarrow> 'a list" where
  "last_n n xs = drop (length xs - n) xs"

definition plateau_pass :: "entry list \<Rightarrow> jsstring list \<Rightarrow> jsstring list" where
  "plateau_pass entries sigs =
    (let assistantMsgs = filter is_assistant entries;
         sigs1 = (if length assistantMsgs \<ge> 10
                     \<and> list_all (\<lambda>e. \<not> is_error_msg e) (last_n 10 assistantMsgs)
                  then add_signal (js ''stable_success_plateau'') sigs else sigs)
     in if length entries \<ge> 10
           \<and> list_all (\<lambda>e. entry_status e = Some (js ''success'') \<or> entry_result e = Some (js ''success''))
                (last_n 10 entries)
           \<and> js ''stable_success_plateau'' \<notin> set sigs1
        then add_signal (js ''stable_success_plateau'') sigs1 else sigs1)"

text \<open>The tool names one entry contributes, to \<^verbatim>\<open>toolCounts\<close> and to \<^verbatim>\<open>toolSequence\<close> alike.\<close>

definition entry_tools :: "entry \<Rightarrow> jsstring list" where
  "entry_tools e =
    (if is_assistant e
     then map (\<lambda>b. the (block_name b))
            (filter (\<lambda>b. block_type b = Some (js ''tool_use'') \<and> truthy (block_name b)) (message_blocks e))
     else [])
    @ (if truthy (tool_name e) then [the (tool_name e)] else [])"

text \<open>
  The walk over \<^verbatim>\<open>toolCounts\<close>, in the order of first use. Walking the sequence of uses
  instead adds the same signals in the same order, as adding twice adds once.
\<close>

definition high_usage_pass :: "jsstring list \<Rightarrow> jsstring list \<Rightarrow> jsstring list" where
  "high_usage_pass tools sigs =
    fold (\<lambda>tool acc. if count_list tools tool \<ge> 5 then add_signal (js ''high_tool_usage:'' @ tool) acc else acc)
      tools sigs"

text \<open>The loop over \<^verbatim>\<open>toolSequence\<close> from index 1: the previous name and \<^verbatim>\<open>repeatCount\<close>.\<close>

fun repeated_loop :: "jsstring \<Rightarrow> nat \<Rightarrow> jsstring list \<Rightarrow> jsstring list \<Rightarrow> jsstring list" where
  "repeated_loop prev repeatCount [] sigs = sigs"
| "repeated_loop prev repeatCount (t # ts) sigs =
    (if t = prev
     then repeated_loop t (repeatCount + 1) ts
            (if repeatCount + 1 \<ge> 3 then add_signal (js ''repeated_tool_usage:'' @ t) sigs else sigs)
     else repeated_loop t 1 ts sigs)"

definition repeated_pass :: "jsstring list \<Rightarrow> jsstring list \<Rightarrow> jsstring list" where
  "repeated_pass tools sigs = (case tools of [] \<Rightarrow> sigs | t # ts \<Rightarrow> repeated_loop t 1 ts sigs)"

definition stagnation_pass :: "entry list \<Rightarrow> jsstring list \<Rightarrow> jsstring list" where
  "stagnation_pass entries sigs =
    (let solidifyFailCount = length (filter (\<lambda>e. mutation_applied e \<and> solidify_failed e) entries);
         sigs1 = (if solidifyFailCount \<ge> 3 then add_signal (js ''repair_loop_detected'') sigs else sigs);
         assistantMsgs = filter is_assistant entries
     in if length assistantMsgs \<ge> 5 \<and> list_all is_error_msg assistantMsgs
        then add_signal (js ''evolution_stagnation'') (add_signal (js ''recurring_error'') sigs1)
        else sigs1)"

definition capability_step :: "entry \<Rightarrow> jsstring list \<Rightarrow> jsstring list" where
  "capability_step e sigs =
    (let sigs1 = (if entry_type e = Some (js ''capability_mention'') \<and> truthy (entry_name e)
                  then add_signal (js ''capability_candidate:'' @ the (entry_name e)) sigs else sigs)
     in if entry_type e = Some (js ''custom'') \<and> customType e = Some (js ''capability_mention'')
           \<and> truthy (data_name e)
        then add_signal (js ''capability_candidate:'' @ the (data_name e)) sigs1 else sigs1)"

text \<open>\<^verbatim>\<open>extractSignals(entries)\<close>, the passes in the source's order.\<close>

definition extractSignals :: "entry list \<Rightarrow> jsstring list" where
  "extractSignals entries =
    (if entries = [] then []
     else let st = fold error_step entries ([], []);
              s1 = (if list_ex (\<lambda>d. count_list (snd st) d \<ge> 3) (snd st)
                    then add_signal (js ''recurring_error'') (fst st) else fst st);
              s2 = fold feature_step entries s1;
              s3 = plateau_pass entries s2;
              tools = concat (map entry_tools entries);
              s4 = high_usage_pass tools s3;
              s5 = repeated_pass tools s4;
              s6 = stagnation_pass entries s5
          in fold capability_step entries s6)"

text \<open>Two native-format response entries: one that succeeded and one that failed with a message.\<close>

definition assistant_ok :: entry where
  "assistant_ok =
    \<lparr>entry_type = Some (js ''message''),
     entry_message = ObjectMessage \<lparr>role = Some (js ''assistant''), msg_content = TextContent (js ''done''),
                                     stopReason = Some (js ''stop''), errorMessage = None\<rparr>,
     entry_level = None, detail = None, entry_status = None, entry_result = None, tool_name = None,
     mutation_applied = False, solidify_failed = False, entry_name = None, customType = None,
     data_name = None\<rparr>"

definition assistant_error :: "jsstring \<Rightarrow> entry" where
  "assistant_error msg =
    assistant_ok\<lparr>entry_message := ObjectMessage \<lparr>role = Some (js ''assistant''), msg_content = NoContent,
                                                   stopReason = Some (js ''error''), errorMessage = Some msg\<rparr>\<rparr>"

text \<open>A session whose first response succeeded and whose five most recent responses failed.\<close>

definition late_failures :: "entry list" where
  "late_failures =
    [assistant_ok, assistant_error (js ''e1''), assistant_error (js ''e2''), assistant_error (js ''e3''),
     assistant_error (js ''e4''), assistant_error (js ''e5'')]"

section \<open>JavaScript numbers\<close>

text \<open>
  The scorer divides and takes a logarithm, so its numbers are doubles: \<^verbatim>\<open>NaN\<close>, an
  infinity, or a finite value (zero carries no sign here: the only zero the scorer divides
  by is a sum of weights). An arithmetic operation on finite values gives the exact result
  rounded to a double, \<open>rnd\<close> of it, which is an infinity on overflow; \<^verbatim>\<open>Math.log2\<close> is the
  platform's. The operations on \<^verbatim>\<open>NaN\<close> and the infinities are those of IEEE 754.
\<close>

datatype jsnum = NaN | NegInf | Finite real | PosInf

record platform =
  rnd :: "real \<Rightarrow> jsnum"
  math_log2 :: "jsnum \<Rightarrow> jsnum"

fun fneg :: "jsnum \<Rightarrow> jsnum" where
  "fneg NaN = NaN"
| "fneg NegInf = PosInf"
| "fneg PosInf = NegInf"
| "fneg (Finite x) = Finite (- x)"

text \<open>\<^verbatim>\<open>a + b\<close> and \<^verbatim>\<open>a - b\<close>.\<close>

fun fadd :: "platform \<Rightarrow> jsnum \<Rightarrow> jsnum \<Rightarrow> jsnum" where
  "fadd m NaN b = NaN"
| "fadd m a NaN = NaN"
| "fadd m (Finite x) (Finite y) = rnd m (x + y)"
| "fadd m PosInf NegInf = NaN"
| "fadd m NegInf PosInf = NaN"
| "fadd m PosInf b = PosInf"
| "fadd m a PosInf = PosInf"
| "fadd m NegInf b = NegInf"
| "fadd m a NegInf = NegInf"

definition fsub :: "platform \<Rightarrow> jsnum \<Rightarrow> jsnum \<Rightarrow> jsnum" where
  "fsub m a b = fadd m a (fneg b)"

text \<open>\<^verbatim>\<open>a * b\<close>: an infinity times zero is \<^verbatim>\<open>NaN\<close>.\<close>

fun fmul :: "platform \<Rightarrow> jsnum \<Rightarrow> jsnum \<Rightarrow> jsnum" where
  "fmul m NaN b = NaN"
| "fmul m a NaN = NaN"
| "fmul m (Finite x) (Finite y) = rnd m (x * y)"
| "fmul m (Finite x) b = (if x = 0 then NaN else if 0 < x then b else fneg b)"
| "fmul m a (Finite y) = (if y = 0 then NaN else if 0 < y then a else fneg a)"
| "fmul m a b = (if a = b then PosInf else NegInf)"

text \<open>
  \<^verbatim>\<open>a / b\<close>: zero by zero and an infinity by an infinity are \<^verbatim>\<open>NaN\<close>; another finite value
  by zero is the infinity of its sign.
\<close>

fun fdiv :: "platform \<Rightarrow> jsnum \<Rightarrow> jsnum \<Rightarrow> jsnum" where
  "fdiv m NaN b = NaN"
| "fdiv m a NaN = NaN"
| "fdiv m (Finite x) (Finite y) =
    (if y = 0 then (if x = 0 then NaN else if 0 < x then PosInf else NegInf)
     else rnd m (x / y))"
| "fdiv m (Finite x) b = Finite 0"
| "fdiv m a (Finite y) = (if 0 \<le> y then a else fneg a)"
| "fdiv m a b = NaN"

text \<open>The order of the numbers that are not \<^verbatim>\<open>NaN\<close>; \<^verbatim>\<open>Math.min\<close>, \<^verbatim>\<open>Math.max\<close>, \<^verbatim>\<open>Math.round\<close>.\<close>

fun num_le :: "jsnum \<Rightarrow> jsnum \<Rightarrow> bool" where
  "num_le NaN b = False"
| "num_le a NaN = False"
| "num_le NegInf b = True"
| "num_le a PosInf = True"
| "num_le (Finite x) (Finite y) = (x \<le> y)"
| "num_le a b = False"

definition fmin :: "jsnum \<Rightarrow> jsnum \<Rightarrow> jsnum" where
  "fmin a b = (if a = NaN \<or> b = NaN then NaN else if num_le a b then a else b)"

definition fmax :: "jsnum \<Rightarrow> jsnum \<Rightarrow> jsnum" where
  "fmax a b = (if a = NaN \<or> b = NaN then NaN else if num_le a b then b else a)"

fun fround :: "jsnum \<Rightarrow> jsnum" where
  "fround (Finite x) = Finite (of_int (round x))"
| "fround a = a"

text \<open>
  What the scorer's bounds need of the platform, and IEEE 754 arithmetic in its default
  rounding mode provides: rounding a real never gives \<^verbatim>\<open>NaN\<close>, it is monotone, and it
  leaves the integers up to \<open>2\<^sup>5\<^sup>3\<close> as they are; the logarithm of a number not below 1 is
  not \<^verbatim>\<open>NaN\<close>.
\<close>

definition ieee :: "platform \<Rightarrow> bool" where
  "ieee m \<longleftrightarrow>
    (\<forall>x. rnd m x \<noteq> NaN)
    \<and> (\<forall>x y. x \<le> y \<longrightarrow> num_le (rnd m x) (rnd m y))
    \<and> (\<forall>k::int. \<bar>k\<bar> \<le> 2 ^ 53 \<longrightarrow> rnd m (of_int k) = Finite (of_int k))
    \<and> (\<forall>a. num_le (Finite 1) a \<longrightarrow> math_log2 m a \<noteq> NaN)"

text \<open>
  The rounding of IEEE 754 binary64 to the nearest double, ties to the even mantissa: a
  double is a multiple, by an integer below \<open>2\<^sup>5\<^sup>3\<close> in magnitude, of the unit of its
  binade; the binades below -1022 share the unit of the subnormal numbers, and a result of
  \<open>2\<^sup>1\<^sup>0\<^sup>2\<^sup>4\<close> is an overflow.
\<close>

definition pow2 :: "int \<Rightarrow> real" where
  "pow2 e = 2 powr of_int e"

definition binade :: "real \<Rightarrow> int" where
  "binade x = max \<lfloor>log 2 \<bar>x\<bar>\<rfloor> (- 1022)"

definition round_even :: "real \<Rightarrow> int" where
  "round_even y =
    (if y - of_int \<lfloor>y\<rfloor> < 1 / 2 then \<lfloor>y\<rfloor>
     else if 1 / 2 < y - of_int \<lfloor>y\<rfloor> then \<lfloor>y\<rfloor> + 1
     else if even \<lfloor>y\<rfloor> then \<lfloor>y\<rfloor> else \<lfloor>y\<rfloor> + 1)"

definition nearest :: "real \<Rightarrow> real" where
  "nearest x = of_int (round_even (x / pow2 (binade x - 52))) * pow2 (binade x - 52)"

definition round_magnitude :: "real \<Rightarrow> jsnum" where
  "round_magnitude x = (if pow2 1024 \<le> nearest x then PosInf else Finite (nearest x))"

definition binary64 :: "real \<Rightarrow> jsnum" where
  "binary64 x =
    (if x = 0 then Finite 0
     else if 0 < x then round_magnitude x
     else fneg (round_magnitude (- x)))"

text \<open>
  The platform of binary64 arithmetic, with a logarithm that is rounded correctly; and, for
  comparison, a platform whose arithmetic has no rounding error.
\<close>

definition real_log2 :: "(real \<Rightarrow> jsnum) \<Rightarrow> jsnum \<Rightarrow> jsnum" where
  "real_log2 rounding a =
    (case a of
       Finite x \<Rightarrow> if 0 < x then rounding (log 2 x) else if x = 0 then NegInf else NaN
     | PosInf \<Rightarrow> PosInf
     | NegInf \<Rightarrow> NaN
     | NaN \<Rightarrow> NaN)"

definition binary64_platform :: platform where
  "binary64_platform = \<lparr>rnd = binary64, math_log2 = real_log2 binary64\<rparr>"

definition exact_platform :: platform where
  "exact_platform = \<lparr>rnd = Finite, math_log2 = real_log2 Finite\<rparr>"

section \<open>Value scorer (src/vfm/scorer.js, the third file of src/unnamed/part_008)\<close>

definition EVOLUTION_THRESHOLD :: jsnum where "EVOLUTION_THRESHOLD = Finite 40"

definition scoreFrequency :: "platform \<Rightarrow> node \<Rightarrow> jsnum" where
  "scoreFrequency m capability =
    (let count = Finite (real (trigger_count capability));
         raw = math_log2 m (fadd m count (Finite 1))
     in fmin raw (Finite 10))"

definition scoreFailReduction :: "platform \<Rightarrow> node \<Rightarrow> capsule list \<Rightarrow> jsnum" where
  "scoreFailReduction m capability capsules =
    (if capsules = [] then Finite 0
     else let relatedCapsules = filter (\<lambda>c. capsule_gene_id c \<in> set (linked_genes capability)) capsules
          in if relatedCapsules = [] then Finite 0
             else let passedCount = Finite (real (length (filter capsule_passed relatedCapsules)));
                      successRate = fdiv m passedCount (Finite (real (length relatedCapsules)))
                  in fmul m successRate (Finite 10))"

definition scoreUserBurden :: "platform \<Rightarrow> node \<Rightarrow> jsnum" where
  "scoreUserBurden m capability =
    (let skillCount = Finite (real (length (linked_skills capability)));
         precondCount = Finite (real (length (preconditions capability)));
         score0 = Finite 0;
         score1 = fadd m score0 (fmin (fmul m skillCount (Finite 2)) (Finite 6));
         score2 = fadd m score1 (fmax (fsub m (Finite 4) precondCount) (Finite 0))
     in fmin score2 (Finite 10))"

text \<open>
  \<^verbatim>\<open>geneMap\<close> after the loop \<^verbatim>\<open>geneMap[g.id] = g\<close> over the loaded genes. A later gene with
  the same id replaces an earlier one (\<open>gm_own\<close> lists the latest first). The id
  \<^verbatim>\<open>__proto__\<close> names the accessor of \<^verbatim>\<open>Object.prototype\<close>: assigning a gene to it creates no
  own property but makes the gene the prototype of \<^verbatim>\<open>geneMap\<close> (\<open>gm_prototype\<close>).
\<close>

record gene_map =
  gm_own :: "(jsstring \<times> gene) list"
  gm_prototype :: "gene option"

definition geneMap_assign :: "gene_map \<Rightarrow> gene \<Rightarrow> gene_map" where
  "geneMap_assign gm g =
    (if gene_id g = js ''__proto__'' then gm\<lparr>gm_prototype := Some g\<rparr>
     else gm\<lparr>gm_own := (gene_id g, g) # gm_own gm\<rparr>)"

definition geneMap :: "gene list \<Rightarrow> gene_map" where
  "geneMap genes = foldl geneMap_assign \<lparr>gm_own = [], gm_prototype = None\<rparr> genes"

text \<open>
  The own properties of a gene object as \<^verbatim>\<open>createGene\<close> writes it: \<open>Some b\<close> for a key that
  names one, where \<open>b\<close> is whether its value is truthy.
\<close>

definition gene_field_truthy :: "gene \<Rightarrow> jsstring \<Rightarrow> bool option" where
  "gene_field_truthy g k =
    (if k \<in> set [js ''type'', js ''category'', js ''signals_match'', js ''preconditions'',
                  js ''strategy'', js ''validation''] then Some True
     else if k = js ''id'' then Some (gene_id g \<noteq> [])
     else if k = js ''constraints'' then Some (gene_constraints g \<noteq> None)
     else if k = js ''capability_node_id''
     then Some (case capability_node_id g of None \<Rightarrow> False | Some c \<Rightarrow> c \<noteq> [])
     else if k = js ''v_score''
     then Some (case gene_v_score g of None \<Rightarrow> False | Some v \<Rightarrow> v \<noteq> 0)
     else if k = js ''created_at'' then Some (gene_created_at g \<noteq> [])
     else None)"

text \<open>
  \<^verbatim>\<open>geneMap[geneId]\<close>, read through the prototype chain: a loaded gene, another truthy value
  (a field of the prototype gene, or a value inherited from \<^verbatim>\<open>Object.prototype\<close>), or a
  falsy value (\<open>None\<close>). The key \<^verbatim>\<open>__proto__\<close> reads the prototype of \<^verbatim>\<open>geneMap\<close>.
\<close>

datatype gene_value = GeneValue gene | OtherValue

definition geneMap_lookup :: "realm \<Rightarrow> gene_map \<Rightarrow> jsstring \<Rightarrow> gene_value option" where
  "geneMap_lookup r gm k =
    (case map_of (gm_own gm) k of
       Some g \<Rightarrow> Some (GeneValue g)
     | None \<Rightarrow>
        (case (case gm_prototype gm of None \<Rightarrow> None | Some g0 \<Rightarrow> gene_field_truthy g0 k) of
           Some b \<Rightarrow> if b then Some OtherValue else None
         | None \<Rightarrow>
            (case inherited_property r k of
               None \<Rightarrow> None
             | Some PrototypeValue \<Rightarrow>
                 (case gm_prototype gm of None \<Rightarrow> Some OtherValue | Some g0 \<Rightarrow> Some (GeneValue g0))
             | Some v \<Rightarrow> Some OtherValue)))"

text \<open>\<^verbatim>\<open>(gene.constraints && gene.constraints.max_files) || 12\<close>: absent and 0 both give 12.\<close>

definition max_files_or_12 :: "gene \<Rightarrow> int" where
  "max_files_or_12 g =
    (case gene_constraints g of None \<Rightarrow> 12
     | Some c \<Rightarrow> (case max_files c of None \<Rightarrow> 12 | Some n \<Rightarrow> if n = 0 then 12 else n))"

text \<open>
  The loop of \<^verbatim>\<open>scoreSelfCost\<close> over the linked gene ids: (totalSteps, totalMaxFiles,
  geneCount). The two counters are sums of array lengths, far below \<open>2\<^sup>5\<^sup>3\<close>, where the
  addition of doubles is exact. A truthy value that is no gene has neither \<^verbatim>\<open>strategy\<close> nor
  \<^verbatim>\<open>constraints\<close>: it adds no step and 12 files.
\<close>

fun selfCost_totals :: "platform \<Rightarrow> realm \<Rightarrow> gene_map \<Rightarrow> jsstring list \<Rightarrow> nat \<times> jsnum \<times> nat
      \<Rightarrow> nat \<times> jsnum \<times> nat" where
  "selfCost_totals m r gm [] acc = acc"
| "selfCost_totals m r gm (geneId # ids) (totalSteps, totalMaxFiles, geneCount) =
    (case geneMap_lookup r gm geneId of
       None \<Rightarrow> selfCost_totals m r gm ids (totalSteps, totalMaxFiles, geneCount)
     | Some (GeneValue g) \<Rightarrow> selfCost_totals m r gm ids
         (totalSteps + length (strategy g),
          fadd m totalMaxFiles (Finite (of_int (max_files_or_12 g))), geneCount + 1)
     | Some OtherValue \<Rightarrow> selfCost_totals m r gm ids
         (totalSteps, fadd m totalMaxFiles (Finite 12), geneCount + 1))"

text \<open>
  \<open>loaded\<close> is what the call \<^verbatim>\<open>loadGenes()\<close> does: the error it throws (\<open>Inl\<close>), or the genes
  it returns. The call is made only for a node with linked genes, and an error it throws
  leaves \<^verbatim>\<open>scoreSelfCost\<close> and \<^verbatim>\<open>computeVScore\<close> uncaught.
\<close>

definition scoreSelfCost :: "platform \<Rightarrow> realm \<Rightarrow> store_error + gene list \<Rightarrow> node \<Rightarrow> store_error + jsnum" where
  "scoreSelfCost m r loaded capability =
    (if linked_genes capability = [] then Inr (Finite 5)
     else case loaded of
       Inl e \<Rightarrow> Inl e
     | Inr genes \<Rightarrow>
        (case selfCost_totals m r (geneMap genes) (linked_genes capability) (0, Finite 0, 0) of
           (totalSteps, totalMaxFiles, geneCount) \<Rightarrow>
             if geneCount = 0 then Inr (Finite 5)
             else let avgSteps = fdiv m (Finite (real totalSteps)) (Finite (real geneCount));
                      avgMaxFiles = fdiv m totalMaxFiles (Finite (real geneCount));
                      stepScore = fmax (fsub m (Finite 10) avgSteps) (Finite 0);
                      fileScore = fmax (fsub m (Finite 10) (fdiv m avgMaxFiles (Finite 2))) (Finite 0)
                  in Inr (fmin (fdiv m (fadd m stepScore fileScore) (Finite 2)) (Finite 10))))"

record vfm_context =
  ctx_capsules :: "capsule list"
  ctx_events :: "event list"

text \<open>The weights \<^verbatim>\<open>computeVScore\<close> uses: the third argument, or the default.\<close>

definition weights_or_default :: "vfm_weights option \<Rightarrow> vfm_weights" where
  "weights_or_default weights =
    (case weights of
       None \<Rightarrow> \<lparr>frequency = 3, failReduce = 3, userBurden = 2, selfCost = 2\<rparr>
     | Some w \<Rightarrow> w)"

text \<open>\<^verbatim>\<open>(context && context.capsules) || []\<close>.\<close>

definition context_capsules :: "vfm_context option \<Rightarrow> capsule list" where
  "context_capsules ctx = (case ctx of None \<Rightarrow> [] | Some c \<Rightarrow> ctx_capsules c)"

text \<open>
  \<^verbatim>\<open>computeVScore(capability, context, weights)\<close>: the error that \<^verbatim>\<open>loadGenes()\<close> throws, or
  the number returned, which is \<^verbatim>\<open>NaN\<close> where the quotient is (0/0 for weights that sum
  to 0).
\<close>

definition computeVScore :: "platform \<Rightarrow> realm \<Rightarrow> store_error + gene list \<Rightarrow> node
      \<Rightarrow> vfm_context option \<Rightarrow> vfm_weights option \<Rightarrow> store_error + jsnum" where
  "computeVScore m r loaded capability ctx weights =
    (let w = weights_or_default weights;
         capsules = context_capsules ctx;
         frequency' = fmul m (scoreFrequency m capability) (Finite (frequency w));
         failReduce' = fmul m (scoreFailReduction m capability capsules) (Finite (failReduce w));
         userBurden' = fmul m (scoreUserBurden m capability) (Finite (userBurden w))
     in case scoreSelfCost m r loaded capability of
          Inl e \<Rightarrow> Inl e
        | Inr sc \<Rightarrow>
           (let selfCost' = fmul m sc (Finite (selfCost w));
                totalWeight = fadd m (fadd m (fadd m (Finite (frequency w)) (Finite (failReduce w)))
                                        (Finite (userBurden w))) (Finite (selfCost w));
                maxScore = fmul m (Finite 10) totalWeight;
                rawScore = fadd m (fadd m (fadd m frequency' failReduce') userBurden') selfCost';
                normalized = fmul m (fdiv m rawScore maxScore) (Finite 100)
            in Inr (fround (fmin (fmax normalized (Finite 0)) (Finite 100)))))"

text \<open>
  The score in the words of the specification, from the four sub-scores: the weighted sum,
  divided by 10 times the weight sum, scaled to 0-100, rounded and clamped.
\<close>

definition weighted_score :: "platform \<Rightarrow> vfm_weights \<Rightarrow> jsnum \<Rightarrow> jsnum \<Rightarrow> jsnum \<Rightarrow> jsnum \<Rightarrow> jsnum" where
  "weighted_score m w f fr ub sc =
    (let weighted_sum = fadd m (fadd m (fadd m (fmul m f (Finite (frequency w)))
                                            (fmul m fr (Finite (failReduce w))))
                                  (fmul m ub (Finite (userBurden w))))
                          (fmul m sc (Finite (selfCost w)));
         weight_sum = fadd m (fadd m (fadd m (Finite (frequency w)) (Finite (failReduce w)))
                                (Finite (userBurden w))) (Finite (selfCost w));
         scaled = fmul m (fdiv m weighted_sum (fmul m (Finite 10) weight_sum)) (Finite 100)
     in fmin (fmax (fround scaled) (Finite 0)) (Finite 100))"

definition isWorthEvolving :: "jsnum \<Rightarrow> bool" where
  "isWorthEvolving score = num_le EVOLUTION_THRESHOLD score"

text \<open>The capability of the repository's test 'computeVScore returns 0-100'.\<close>

definition test_capability :: node where
  "test_capability =
    \<lparr>node_id = js ''cap.test'', node_name = js ''Test Capability'', level = js ''low'',
     parent_id = js ''cap'', node_input = [], node_output = [], preconditions = [], failure_boundary = [],
     linked_genes = [], linked_skills = [js ''s1''], children = [], status = js ''active'',
     v_score = None, last_triggered = None, trigger_count = 10\<rparr>"

text \<open>
  A capability triggered once, with one linked gene that the store does not hold, and four
  capsules of that gene of which one passed validation: the four sub-scores are 1, 2.5, 4
  and 5, and the weighted sum is 28.5 of 100.
\<close>

definition half_point_capability :: node where
  "half_point_capability =
    \<lparr>node_id = js ''cap.half'', node_name = js ''Half'', level = js ''low'',
     parent_id = js ''cap'', node_input = [], node_output = [], preconditions = [], failure_boundary = [],
     linked_genes = [js ''g1''], linked_skills = [], children = [], status = js ''active'',
     v_score = None, last_triggered = None, trigger_count = 1\<rparr>"

definition half_point_context :: vfm_context where
  "half_point_context =
    \<lparr>ctx_capsules =
       [failed_capsule\<lparr>capsule_metrics := Some \<lparr>blast_files = 0, blast_lines = 0, validation_passed = True\<rparr>\<rparr>,
        failed_capsule, failed_capsule, failed_capsule],
     ctx_events = []\<rparr>"

text \<open>
  The weights of the specification's adaptive range: each of the four lies in [1, 5], as the
  default weights do and as \<^verbatim>\<open>mutateWeights\<close> keeps them.
\<close>

definition weights_in_range :: "vfm_weights \<Rightarrow> bool" where
  "weights_in_range w \<longleftrightarrow>
    1 \<le> frequency w \<and> frequency w \<le> 5 \<and> 1 \<le> failReduce w \<and> failReduce w \<le> 5
    \<and> 1 \<le> userBurden w \<and> userBurden w \<le> 5 \<and> 1 \<le> selfCost w \<and> selfCost w \<le> 5"

text \<open>Bounds on a number: finite within the two reals; not \<^verbatim>\<open>NaN\<close> and at most the real.\<close>

definition finite_in :: "real \<Rightarrow> real \<Rightarrow> jsnum \<Rightarrow> bool" where
  "finite_in lo hi a = (case a of Finite x \<Rightarrow> lo \<le> x \<and> x \<le> hi | _ \<Rightarrow> False)"

definition at_most :: "real \<Rightarrow> jsnum \<Rightarrow> bool" where
  "at_most hi a = num_le a (Finite hi)"

section \<open>Basic facts about strings\<close>

text \<open>Two ASCII literals are the same JavaScript string exactly when they are the same text.\<close>

lemma js_eq_iff [simp]: "js a = js b \<longleftrightarrow> a = b"
  unfolding js_def by (simp add: inj_map_eq_map inj_on_def)

section \<open>Properties of the mutation protocol\<close>

lemma show_nat_600: "show_nat 600 = js ''600''"
  by (simp add: js_def)

text \<open>
  Claim C1, as stated, fails: a change of 600 lines in 2 files of a 'repair' mutation
  has lines > 500, yet the assessed risk stays 'low'; only the warning is appended.
\<close>

theorem assessRisk_lines_counterexample:
  "lines \<lparr>files = 2, lines = 600\<rparr> > 500
   \<and> risk (assessRisk repair_mutation \<lparr>files = 2, lines = 600\<rparr>) = Low
   \<and> risk (assessRisk repair_mutation \<lparr>files = 2, lines = 600\<rparr>) \<noteq> Medium
   \<and> warnings (assessRisk repair_mutation \<lparr>files = 2, lines = 600\<rparr>) = [js ''Large change: 600 lines'']"
  by (simp add: assessRisk_def repair_mutation_def show_int_def show_nat_600 js_def)

text \<open>
  Claim C1, amended: assessRisk starts from the category's base risk; the risk becomes
  'medium' exactly when files > 10, or the category is 'innovate' and files > 5, and is the
  base risk otherwise; the warnings are, in this order, the blast-radius warning when
  files > 10, the large-change warning when lines > 500 (which leaves the risk as it is), and
  the innovation warning when the category is 'innovate' and files > 5.
\<close>

theorem assessRisk_risk_and_warnings:
  "risk (assessRisk m b) =
     (if files b > 10 \<or> (category m = Innovate \<and> files b > 5) then Medium
      else RISK_MAP (category m))
   \<and> warnings (assessRisk m b) =
     (if files b > 10 then [js ''High blast radius: '' @ show_int (files b) @ js '' files''] else [])
     @ (if lines b > 500 then [js ''Large change: '' @ show_int (lines b) @ js '' lines''] else [])
     @ (if category m = Innovate \<and> files b > 5 then [js ''Innovation with wide blast radius''] else [])"
  by (simp add: assessRisk_def Let_def)

theorem assessRisk_risk_and_warnings_witness:
  "risk (assessRisk (repair_mutation\<lparr>category := Innovate\<rparr>) \<lparr>files = 6, lines = 501\<rparr>) = Medium
   \<and> length (warnings (assessRisk (repair_mutation\<lparr>category := Innovate\<rparr>) \<lparr>files = 6, lines = 501\<rparr>)) = 2"
  using assessRisk_risk_and_warnings [of "repair_mutation\<lparr>category := Innovate\<rparr>" "\<lparr>files = 6, lines = 501\<rparr>"]
  by simp


section \<open>Properties of the weight mutator\<close>






section \<open>Properties of gene selection\<close>

lemma selectGene_Some_score:
  assumes "selectGene genes signals options = Some g"
  shows "g \<in> set genes
    \<and> (case minScore options of Some m \<Rightarrow> m | None \<Rightarrow> 0.3) \<le> select_score signals (preferCategory options) g"
proof -
  define min_score where "min_score = (case minScore options of Some m \<Rightarrow> m | None \<Rightarrow> 0.3)"
  define kept where "kept = filter (\<lambda>item. snd item \<ge> min_score)
      (map (\<lambda>g. (g, select_score signals (preferCategory options) g)) genes)"
  define scored where "scored = sort_key (\<lambda>item. - snd item) kept"
  from assms have ne: "scored \<noteq> []" and g: "g = fst (hd scored)"
    by (auto simp: selectGene_def Let_def scored_def kept_def min_score_def split: if_splits)
  from ne have "hd scored \<in> set scored" by simp
  then have "hd scored \<in> set kept" by (simp add: scored_def)
  then have "fst (hd scored) \<in> set genes
      \<and> min_score \<le> select_score signals (preferCategory options) (fst (hd scored))"
    by (auto simp: kept_def)
  then show ?thesis by (simp add: g min_score_def)
qed

text \<open>
  Claim C7: a gene that selectGene returns is one of the stored genes and its score
  (matchScore, plus 0.1 when its category is the preferred one) is at least minScore
  (0.3 when no minScore is given); for an empty signal set selectGene returns none.
\<close>

theorem selectGene_never_below_minScore:
  "(selectGene genes signals options = Some g \<longrightarrow>
      g \<in> set genes
      \<and> (case minScore options of Some m \<Rightarrow> m | None \<Rightarrow> 0.3)
          \<le> matchScore g signals + (if preferCategory options = Some (gene_category g) then 0.1 else 0))
   \<and> selectGene genes [] options = None"
proof -
  have "selectGene genes [] options = None"
    by (simp add: selectGene_def)
  moreover have "select_score signals (preferCategory options) g
      = matchScore g signals + (if preferCategory options = Some (gene_category g) then 0.1 else 0)"
    by (simp add: select_score_def Let_def)
  ultimately show ?thesis
    using selectGene_Some_score [of genes signals options g] by auto
qed

lemma matchScore_gene_test_repair:
  "matchScore gene_test_repair [js ''log_error'', js ''recurring_error''] = 1"
  by (simp add: matchScore_def matched_of_def gene_test_repair_def)

lemma selectGene_gene_test_repair:
  "selectGene [gene_test_repair] [js ''log_error'', js ''recurring_error'']
      \<lparr>preferCategory = None, minScore = None\<rparr> = Some gene_test_repair"
  by (simp add: selectGene_def select_score_def matchScore_gene_test_repair)

theorem selectGene_never_below_minScore_witness:
  "selectGene [gene_test_repair] [js ''log_error'', js ''recurring_error'']
      \<lparr>preferCategory = None, minScore = None\<rparr> = Some gene_test_repair
   \<and> (0.3::real) \<le> matchScore gene_test_repair [js ''log_error'', js ''recurring_error'']
   \<and> selectGene [gene_test_repair] [] \<lparr>preferCategory = None, minScore = None\<rparr> = None"
  using selectGene_never_below_minScore [of "[gene_test_repair]"
      "[js ''log_error'', js ''recurring_error'']" "\<lparr>preferCategory = None, minScore = None\<rparr>"
      gene_test_repair]
    selectGene_gene_test_repair
  by simp

section \<open>Properties of the PCEC cycle\<close>

lemma str_includes_Nil: "str_includes [] p \<longleftrightarrow> p = []"
  by simp

lemma no_keyword_in_empty: "\<not> list_ex (str_includes []) EXCLUDE_KEYWORDS"
  by (simp add: EXCLUDE_KEYWORDS_def)

text \<open>
  Claim C9, as stated, fails: an outcome recorded with a recognized type and no description
  gets the empty description, which contains no excluded phrase, yet the cycle is not
  substantive.
\<close>

theorem hasSubstantiveOutcome_empty_description_counterexample:
  "outcomes (addOutcome (js ''t1'') (new_cycle (js ''pcec_1'') (js ''t0''))
       (Some \<lparr>arg_type = Some (js ''capability''), arg_description = None\<rparr>))
     = [\<lparr>outcome_type = js ''capability'', description = [], added_at = js ''t1''\<rparr>]
   \<and> js ''capability'' \<in> set SUBSTANTIVE_TYPES
   \<and> \<not> list_ex (str_includes []) EXCLUDE_KEYWORDS
   \<and> \<not> hasSubstantiveOutcome (addOutcome (js ''t1'') (new_cycle (js ''pcec_1'') (js ''t0''))
       (Some \<lparr>arg_type = Some (js ''capability''), arg_description = None\<rparr>))"
proof -
  have o: "outcomes (addOutcome (js ''t1'') (new_cycle (js ''pcec_1'') (js ''t0''))
       (Some \<lparr>arg_type = Some (js ''capability''), arg_description = None\<rparr>))
     = [\<lparr>outcome_type = js ''capability'', description = [], added_at = js ''t1''\<rparr>]"
    by (simp add: addOutcome_def new_cycle_def or_default_def js_def)
  have t: "js ''capability'' \<in> set SUBSTANTIVE_TYPES"
    by (simp add: SUBSTANTIVE_TYPES_def)
  have "\<not> hasSubstantiveOutcome (addOutcome (js ''t1'') (new_cycle (js ''pcec_1'') (js ''t0''))
       (Some \<lparr>arg_type = Some (js ''capability''), arg_description = None\<rparr>))"
    unfolding hasSubstantiveOutcome_def o by (simp add: Let_def)
  with o t no_keyword_in_empty show ?thesis by simp
qed

text \<open>
  Claim C9, amended: a PCEC cycle is judged substantive if and only if at least one of its
  recorded outcomes has a recognized type ('capability', 'abstraction' or 'leverage') and a
  non-empty description that contains no phrase of the excluded list; a cycle with no
  outcomes is not substantive.
\<close>

theorem hasSubstantiveOutcome_iff:
  "(hasSubstantiveOutcome cycle \<longleftrightarrow>
      (\<exists>a \<in> set (outcomes cycle).
         outcome_type a \<in> set SUBSTANTIVE_TYPES
         \<and> description a \<noteq> []
         \<and> \<not> (\<exists>keyword \<in> set EXCLUDE_KEYWORDS. str_includes (description a) keyword)))
   \<and> (outcomes cycle = [] \<longrightarrow> \<not> hasSubstantiveOutcome cycle)"
proof -
  have "hasSubstantiveOutcome cycle \<longleftrightarrow>
      (\<exists>a \<in> set (outcomes cycle).
         outcome_type a \<in> set SUBSTANTIVE_TYPES
         \<and> description a \<noteq> []
         \<and> \<not> (\<exists>keyword \<in> set EXCLUDE_KEYWORDS. str_includes (description a) keyword))"
    by (auto simp: hasSubstantiveOutcome_def Let_def filter_empty_conv list_ex_iff)
  moreover have "outcomes cycle = [] \<longrightarrow> \<not> hasSubstantiveOutcome cycle"
    by (simp add: hasSubstantiveOutcome_def)
  ultimately show ?thesis by blast
qed

theorem hasSubstantiveOutcome_iff_witness:
  "hasSubstantiveOutcome (addOutcome (js ''t1'') (new_cycle (js ''pcec_1'') (js ''t0''))
       (Some \<lparr>arg_type = Some (js ''capability''), arg_description = Some (js ''new retry tool'')\<rparr>))
   \<and> \<not> hasSubstantiveOutcome (new_cycle (js ''pcec_1'') (js ''t0''))"
proof -
  let ?c = "addOutcome (js ''t1'') (new_cycle (js ''pcec_1'') (js ''t0''))
       (Some \<lparr>arg_type = Some (js ''capability''), arg_description = Some (js ''new retry tool'')\<rparr>)"
  let ?a = "\<lparr>outcome_type = js ''capability'', description = js ''new retry tool'', added_at = js ''t1''\<rparr>"
  have o: "outcomes ?c = [?a]"
    by (simp add: addOutcome_def new_cycle_def or_default_def js_def)
  have k: "\<not> (\<exists>keyword \<in> set EXCLUDE_KEYWORDS. str_includes (js ''new retry tool'') keyword)"
    by (simp add: EXCLUDE_KEYWORDS_def js_def startsWith_def)
  have d: "js ''new retry tool'' \<noteq> []"
    by (simp add: js_def)
  have t: "js ''capability'' \<in> set SUBSTANTIVE_TYPES"
    by (simp add: SUBSTANTIVE_TYPES_def)
  have e: "outcomes (new_cycle (js ''pcec_1'') (js ''t0'')) = []"
    by (simp add: new_cycle_def)
  have "\<exists>a \<in> set (outcomes ?c). outcome_type a \<in> set SUBSTANTIVE_TYPES \<and> description a \<noteq> []
         \<and> \<not> (\<exists>keyword \<in> set EXCLUDE_KEYWORDS. str_includes (description a) keyword)"
    unfolding o using k d t by simp
  then show ?thesis
    using hasSubstantiveOutcome_iff [of ?c]
      hasSubstantiveOutcome_iff [of "new_cycle (js ''pcec_1'') (js ''t0'')"] e
    by blast
qed

section \<open>Properties of the capability tree\<close>

subsection \<open>The removal of the specification\<close>

lemma map_of_delete:
  "map_of (filter (\<lambda>(k, n). k \<noteq> i) ps) x = (if x = i then None else map_of ps x)"
  by (induction ps) auto

lemma map_of_update:
  "map_of (map (\<lambda>(k', n). if k' = k then (k', g n) else (k', n)) ps) x
     = (if x = k then map_option g (map_of ps x) else map_of ps x)"
  by (induction ps) auto

lemma lookup_delete_node:
  "map_of (nodes (delete_node i t)) x = (if x = i then None else map_of (nodes t) x)"
  by (simp add: delete_node_def map_of_delete)

lemma root_delete_node [simp]: "tree_root (delete_node i t) = tree_root t"
  by (simp add: delete_node_def)

lemma root_update_children [simp]: "tree_root (update_children k f t) = tree_root t"
  by (simp add: update_children_def)

lemma nodes_update_root_children [simp]: "nodes (update_root_children f t) = nodes t"
  by (simp add: update_root_children_def)

lemma root_update_root_children [simp]:
  "root_id (tree_root (update_root_children f t)) = root_id (tree_root t)"
  "root_children (tree_root (update_root_children f t)) = f (root_children (tree_root t))"
  by (simp_all add: update_root_children_def)

lemma lookup_update_children:
  "map_of (nodes (update_children k f t)) x
     = (if x = k then map_option (\<lambda>n. n\<lparr>children := f (children n)\<rparr>) (map_of (nodes t) x)
        else map_of (nodes t) x)"
  by (simp add: update_children_def map_of_update)

lemma lookup_detach_spec:
  "map_of (nodes (detach_spec p i t)) k
     = (if p \<noteq> root_id (tree_root t) \<and> k = p
        then map_option (\<lambda>n. n\<lparr>children := filter (\<lambda>cid. cid \<noteq> i) (children n)\<rparr>) (map_of (nodes t) k)
        else map_of (nodes t) k)"
  by (cases "map_of (nodes t) p") (simp_all add: detach_spec_def lookup_update_children)

lemma root_detach_spec:
  "root_id (tree_root (detach_spec p i t)) = root_id (tree_root t)"
  "root_children (tree_root (detach_spec p i t))
     = (if p = root_id (tree_root t) then filter (\<lambda>cid. cid \<noteq> i) (root_children (tree_root t))
        else root_children (tree_root t))"
  by (simp_all add: detach_spec_def)

lemma shrinks_refl: "shrinks t t"
  by (simp add: shrinks_def)

lemma shrinks_trans:
  assumes "shrinks t'' t'" and "shrinks t' t"
  shows "shrinks t'' t"
  unfolding shrinks_def
proof (intro conjI allI impI)
  show "root_id (tree_root t'') = root_id (tree_root t)"
    using assms by (simp add: shrinks_def)
  show "set (root_children (tree_root t'')) \<subseteq> set (root_children (tree_root t))"
    using assms unfolding shrinks_def by blast
next
  fix k n''
  assume "map_of (nodes t'') k = Some n''"
  with assms(1) obtain n' where n': "map_of (nodes t') k = Some n'"
    "parent_id n'' = parent_id n'" "set (children n'') \<subseteq> set (children n')"
    unfolding shrinks_def by blast
  from assms(2) n'(1) obtain n where n: "map_of (nodes t) k = Some n"
    "parent_id n' = parent_id n" "set (children n') \<subseteq> set (children n)"
    unfolding shrinks_def by blast
  from n' n show "\<exists>n. map_of (nodes t) k = Some n \<and> parent_id n'' = parent_id n
      \<and> set (children n'') \<subseteq> set (children n)"
    by auto
qed

lemma shrinks_detach_spec: "shrinks (detach_spec p i t) t"
  unfolding shrinks_def
  by (auto simp: lookup_detach_spec root_detach_spec split: if_splits)

lemma shrinks_delete_node: "shrinks (delete_node i t) t"
  unfolding shrinks_def
  by (auto simp: lookup_delete_node split: if_splits)

lemma removeNode_spec_shrinks:
  "removeNode_spec depth t ident = Some r \<Longrightarrow> shrinks (snd r) t"
  "removeChildren_spec depth t ids = Some t' \<Longrightarrow> shrinks t' t"
proof (induction depth t ident and depth t ids arbitrary: r and t' rule: removeNode_spec_removeChildren_spec.induct)
  case (1 t ident)
  then show ?case by simp
next
  case (2 depth t ident)
  show ?case
  proof (cases "map_of (nodes t) ident")
    case None
    with "2.prems" show ?thesis by (auto simp: shrinks_refl)
  next
    case (Some n)
    with "2.prems" obtain t1 where t1: "removeChildren_spec depth t (children n) = Some t1"
      and r: "r = (True, delete_node ident (detach_spec (parent_id n) ident t1))"
      by (auto split: option.splits)
    from "2.IH" [OF Some t1] have "shrinks t1 t" .
    then show ?thesis
      unfolding r using shrinks_delete_node shrinks_detach_spec shrinks_trans by (metis snd_conv)
  qed
next
  case (3 depth t)
  then show ?case by (simp add: shrinks_refl)
next
  case (4 depth t childId childIds)
  from "4.prems" obtain r where r: "removeNode_spec depth t childId = Some r"
    and rest: "removeChildren_spec depth (snd r) childIds = Some t'"
    by (auto split: option.splits)
  from "4.IH"(1) [OF r] have "shrinks (snd r) t" .
  moreover from "4.IH"(2) [OF r rest] have "shrinks t' (snd r)" .
  ultimately show ?case by (rule shrinks_trans [rotated])
qed

lemma height_le_shrinks:
  "shrinks t' t \<Longrightarrow> height_le h t k \<Longrightarrow> height_le h t' k"
proof (induction h arbitrary: k)
  case 0
  then show ?case by simp
next
  case (Suc h)
  show ?case
  proof (cases "map_of (nodes t') k")
    case None
    then show ?thesis by simp
  next
    case (Some n')
    with Suc.prems(1) obtain n where n: "map_of (nodes t) k = Some n"
      and sub: "set (children n') \<subseteq> set (children n)"
      unfolding shrinks_def by blast
    from Suc.prems(2) n have "list_all (height_le h t) (children n)" by simp
    with sub have "list_all (height_le h t) (children n')"
      by (auto simp: list_all_iff)
    with Suc.IH [OF Suc.prems(1)] have "list_all (height_le h t') (children n')"
      by (auto simp: list_all_iff)
    with Some show ?thesis by simp
  qed
qed

text \<open>On an acyclic \<^verbatim>\<open>children\<close> relation the recursion returns: the height bounds its depth.\<close>

lemma removeNode_spec_returns:
  "height_le depth t ident \<Longrightarrow> \<exists>r. removeNode_spec depth t ident = Some r"
  "list_all (height_le depth t) ids \<Longrightarrow> \<exists>t'. removeChildren_spec depth t ids = Some t'"
proof (induction depth t ident and depth t ids rule: removeNode_spec_removeChildren_spec.induct)
  case (1 t ident)
  then show ?case by simp
next
  case (2 depth t ident)
  show ?case
  proof (cases "map_of (nodes t) ident")
    case None
    then show ?thesis by auto
  next
    case (Some n)
    with "2.prems" have "list_all (height_le depth t) (children n)" by simp
    from "2.IH" [OF Some this] obtain t1 where "removeChildren_spec depth t (children n) = Some t1" ..
    with Some show ?thesis by auto
  qed
next
  case (3 depth t)
  then show ?case by simp
next
  case (4 depth t childId childIds)
  from "4.prems" have h: "height_le depth t childId" and hs: "list_all (height_le depth t) childIds"
    by simp_all
  from "4.IH"(1) [OF h] obtain r where r: "removeNode_spec depth t childId = Some r" ..
  from removeNode_spec_shrinks(1) [OF r] have "shrinks (snd r) t" .
  with hs have "list_all (height_le depth (snd r)) childIds"
    by (auto simp: list_all_iff intro: height_le_shrinks)
  from "4.IH"(2) [OF r this] obtain t' where "removeChildren_spec depth (snd r) childIds = Some t'" ..
  with r show ?case by simp
qed

text \<open>A deeper bound does not change a result.\<close>

lemma removeNode_spec_depth_mono:
  "removeNode_spec depth t ident = Some r \<Longrightarrow> removeNode_spec (depth + d) t ident = Some r"
  "removeChildren_spec depth t ids = Some t' \<Longrightarrow> removeChildren_spec (depth + d) t ids = Some t'"
proof (induction depth t ident and depth t ids arbitrary: r and t' rule: removeNode_spec_removeChildren_spec.induct)
  case (1 t ident)
  then show ?case by simp
next
  case (2 depth t ident)
  show ?case
  proof (cases "map_of (nodes t) ident")
    case None
    with "2.prems" show ?thesis by simp
  next
    case (Some n)
    with "2.prems" obtain t1 where t1: "removeChildren_spec depth t (children n) = Some t1"
      and r: "r = (True, delete_node ident (detach_spec (parent_id n) ident t1))"
      by (auto split: option.splits)
    from "2.IH" [OF Some t1] have "removeChildren_spec (depth + d) t (children n) = Some t1" .
    with Some r show ?thesis by simp
  qed
next
  case (3 depth t)
  then show ?case by simp
next
  case (4 depth t childId childIds)
  from "4.prems" obtain r where r: "removeNode_spec depth t childId = Some r"
    and rest: "removeChildren_spec depth (snd r) childIds = Some t'"
    by (auto split: option.splits)
  from "4.IH"(1) [OF r] "4.IH"(2) [OF r rest] show ?case by simp
qed

lemma removeNode_spec_result:
  assumes "removeNode_spec depth t ident = Some (True, t')"
  obtains n t1 d where "depth = Suc d" "map_of (nodes t) ident = Some n"
    "removeChildren_spec d t (children n) = Some t1"
    "t' = delete_node ident (detach_spec (parent_id n) ident t1)"
  using assms by (cases depth) (auto split: option.splits)

text \<open>
  After a removal that returned true, the id is in no \<^verbatim>\<open>children\<close> list and names no node,
  provided that before it the id was only in the list of the node's declared parent.
\<close>

lemma removeNode_spec_detached:
  assumes rm: "removeNode_spec depth t ident = Some (True, t')"
    and root: "map_of (nodes t) (root_id (tree_root t)) = None"
    and rootc: "list_all (child_of t (root_id (tree_root t))) (root_children (tree_root t))"
    and kids: "list_all (\<lambda>(k, n). list_all (child_of t k) (children n)) (nodes t)"
  shows "map_of (nodes t') ident = None
    \<and> ident \<notin> set (root_children (tree_root t'))
    \<and> (\<forall>k n'. map_of (nodes t') k = Some n' \<longrightarrow> ident \<notin> set (children n'))"
proof -
  from rm obtain n t1 d where n: "map_of (nodes t) ident = Some n"
    and t1: "removeChildren_spec d t (children n) = Some t1"
    and t': "t' = delete_node ident (detach_spec (parent_id n) ident t1)"
    by (rule removeNode_spec_result)
  let ?p = "parent_id n"
  let ?t2 = "detach_spec ?p ident t1"
  have sh: "shrinks t1 t" by (rule removeNode_spec_shrinks(2) [OF t1])
  have rid: "root_id (tree_root t1) = root_id (tree_root t)"
    using sh by (simp add: shrinks_def)
  have gone: "map_of (nodes t') ident = None"
    by (simp add: t' lookup_delete_node)
  have owner: "?p = k" if "map_of (nodes t) k = Some m" "ident \<in> set (children m)" for k m
  proof -
    from that(1) have "(k, m) \<in> set (nodes t)" by (rule map_of_SomeD)
    with kids have "list_all (child_of t k) (children m)" by (auto simp: list_all_iff)
    with that(2) have "child_of t k ident" by (simp add: list_all_iff)
    with n show ?thesis by (simp add: child_of_def)
  qed
  have root_owner: "?p = root_id (tree_root t)" if "ident \<in> set (root_children (tree_root t))"
  proof -
    from rootc that have "child_of t (root_id (tree_root t)) ident" by (simp add: list_all_iff)
    with n show ?thesis by (simp add: child_of_def)
  qed
  have rootlist: "ident \<notin> set (root_children (tree_root t'))"
  proof (cases "?p = root_id (tree_root t)")
    case True
    then show ?thesis by (simp add: t' root_detach_spec rid)
  next
    case False
    with root_owner have "ident \<notin> set (root_children (tree_root t))" by blast
    with sh have "ident \<notin> set (root_children (tree_root t1))"
      unfolding shrinks_def by blast
    with False show ?thesis by (simp add: t' root_detach_spec rid)
  qed
  have lists: "ident \<notin> set (children n')" if look: "map_of (nodes t') k = Some n'" for k n'
  proof
    assume mem: "ident \<in> set (children n')"
    from look have l2: "map_of (nodes ?t2) k = Some n'"
      by (simp add: t' lookup_delete_node split: if_splits)
    show False
    proof (cases "?p \<noteq> root_id (tree_root t) \<and> k = ?p")
      case True
      with l2 obtain n1 where "n' = n1\<lparr>children := filter (\<lambda>cid. cid \<noteq> ident) (children n1)\<rparr>"
        by (auto simp: lookup_detach_spec rid)
      with mem show False by simp
    next
      case False
      with l2 have l1: "map_of (nodes t1) k = Some n'"
        by (simp add: lookup_detach_spec rid split: if_splits)
      with sh obtain m where m: "map_of (nodes t) k = Some m" "set (children n') \<subseteq> set (children m)"
        unfolding shrinks_def by blast
      from m mem have "?p = k" by (intro owner [of k m]) auto
      with False have "k = root_id (tree_root t)" by simp
      with root m(1) show False by simp
    qed
  qed
  from gone rootlist lists show ?thesis by blast
qed

text \<open>The recursion removes the children of the node as well.\<close>

lemma removeNode_spec_gone:
  "removeNode_spec depth t ident = Some r \<Longrightarrow> map_of (nodes (snd r)) ident = None"
  by (cases depth) (auto simp: lookup_delete_node split: option.splits)

lemma shrinks_gone:
  "shrinks t' t \<Longrightarrow> map_of (nodes t) k = None \<Longrightarrow> map_of (nodes t') k = None"
proof (cases "map_of (nodes t') k")
  case None
  then show ?thesis .
next
  case (Some n')
  assume "shrinks t' t" and gone: "map_of (nodes t) k = None"
  with Some obtain n where "map_of (nodes t) k = Some n"
    unfolding shrinks_def by blast
  with gone show ?thesis by simp
qed

lemma removeChildren_spec_gone:
  "removeChildren_spec depth t ids = Some t' \<Longrightarrow> c \<in> set ids \<Longrightarrow> map_of (nodes t') c = None"
proof (induction ids arbitrary: t)
  case Nil
  then show ?case by simp
next
  case (Cons childId childIds)
  from Cons.prems(1) obtain r where r: "removeNode_spec depth t childId = Some r"
    and rest: "removeChildren_spec depth (snd r) childIds = Some t'"
    by (auto split: option.splits)
  show ?case
  proof (cases "c = childId")
    case True
    from removeNode_spec_gone [OF r] have "map_of (nodes (snd r)) c = None"
      by (simp add: True)
    with removeNode_spec_shrinks(2) [OF rest] show ?thesis
      by (rule shrinks_gone)
  next
    case False
    with Cons.prems(2) have "c \<in> set childIds" by simp
    with Cons.IH [OF rest] show ?thesis .
  qed
qed

lemma removeNode_spec_children_gone:
  assumes "removeNode_spec depth t ident = Some (True, t')"
    and "map_of (nodes t) ident = Some n" and "c \<in> set (children n)"
  shows "map_of (nodes t') c = None"
proof -
  from assms(1) obtain m t1 d where m: "map_of (nodes t) ident = Some m"
    and t1: "removeChildren_spec d t (children m) = Some t1"
    and t': "t' = delete_node ident (detach_spec (parent_id m) ident t1)"
    by (rule removeNode_spec_result)
  from m assms(2) have "m = n" by simp
  with t1 assms(3) have "map_of (nodes t1) c = None"
    using removeChildren_spec_gone by blast
  then have "map_of (nodes (detach_spec (parent_id m) ident t1)) c = None"
    by (auto simp: lookup_detach_spec)
  then show ?thesis
    by (simp add: t' lookup_delete_node)
qed

lemma pruned_only_refl: "pruned_only t t"
  by (auto simp: pruned_only_def)

lemma dead_closed_refl: "dead_closed t t"
  by (auto simp: dead_closed_def)

lemma pruned_only_trans:
  assumes a: "pruned_only t2 t1" and b: "pruned_only t1 t" and s2: "shrinks t2 t1"
  shows "pruned_only t2 t"
  unfolding pruned_only_def
proof (intro allI impI)
  fix q n n2 c
  assume h: "map_of (nodes t) q = Some n \<and> map_of (nodes t2) q = Some n2
      \<and> c \<in> set (children n) \<and> c \<notin> set (children n2)"
  with s2 obtain n1 where n1: "map_of (nodes t1) q = Some n1"
    unfolding shrinks_def by blast
  show "map_of (nodes t2) c = None"
  proof (cases "c \<in> set (children n1)")
    case True
    with a h n1 show ?thesis unfolding pruned_only_def by blast
  next
    case False
    with b h n1 have "map_of (nodes t1) c = None" unfolding pruned_only_def by blast
    with s2 show ?thesis by (rule shrinks_gone)
  qed
qed

lemma dead_closed_trans:
  assumes a: "dead_closed t2 t1" and b: "dead_closed t1 t" and p: "pruned_only t1 t" and s2: "shrinks t2 t1"
  shows "dead_closed t2 t"
  unfolding dead_closed_def
proof (intro allI impI)
  fix q n c
  assume h: "map_of (nodes t) q = Some n \<and> map_of (nodes t2) q = None \<and> c \<in> set (children n)"
  show "map_of (nodes t2) c = None"
  proof (cases "map_of (nodes t1) q")
    case None
    with b h have "map_of (nodes t1) c = None" unfolding dead_closed_def by blast
    with s2 show ?thesis by (rule shrinks_gone)
  next
    case (Some n1)
    show ?thesis
    proof (cases "c \<in> set (children n1)")
      case True
      with a h Some show ?thesis unfolding dead_closed_def by blast
    next
      case False
      with p h Some have "map_of (nodes t1) c = None" unfolding pruned_only_def by blast
      with s2 show ?thesis by (rule shrinks_gone)
    qed
  qed
qed

lemma removeNode_spec_dead_closed:
  "removeNode_spec depth t ident = Some r \<Longrightarrow> pruned_only (snd r) t \<and> dead_closed (snd r) t"
  "removeChildren_spec depth t ids = Some t' \<Longrightarrow> pruned_only t' t \<and> dead_closed t' t"
proof (induction depth t ident and depth t ids arbitrary: r and t' rule: removeNode_spec_removeChildren_spec.induct)
  case (1 t ident)
  then show ?case by simp
next
  case (2 depth t ident)
  show ?case
  proof (cases "map_of (nodes t) ident")
    case None
    with "2.prems" show ?thesis by (auto simp: pruned_only_refl dead_closed_refl)
  next
    case (Some n)
    with "2.prems" obtain t1 where t1: "removeChildren_spec depth t (children n) = Some t1"
      and r: "r = (True, delete_node ident (detach_spec (parent_id n) ident t1))"
      by (auto split: option.splits)
    let ?t' = "delete_node ident (detach_spec (parent_id n) ident t1)"
    from "2.IH" [OF Some t1] have p1: "pruned_only t1 t" and c1: "dead_closed t1 t" by simp_all
    have s1: "shrinks t1 t" by (rule removeNode_spec_shrinks(2) [OF t1])
    have dead: "map_of (nodes ?t') x = None" if "map_of (nodes t1) x = None" for x
      using that by (auto simp: lookup_delete_node lookup_detach_spec)
    have alive: "\<exists>n1. map_of (nodes t1) q = Some n1
        \<and> (set (children n') = set (children n1) \<or> set (children n') = set (children n1) - {ident})"
      if "map_of (nodes ?t') q = Some n'" for q n'
      using that by (auto simp: lookup_delete_node lookup_detach_spec split: if_splits)
    have gone: "map_of (nodes ?t') ident = None"
      by (simp add: lookup_delete_node)
    have "pruned_only ?t' t"
      unfolding pruned_only_def
    proof (intro allI impI)
      fix q m n' c
      assume h: "map_of (nodes t) q = Some m \<and> map_of (nodes ?t') q = Some n'
          \<and> c \<in> set (children m) \<and> c \<notin> set (children n')"
      then obtain n1 where n1: "map_of (nodes t1) q = Some n1"
        and l: "set (children n') = set (children n1) \<or> set (children n') = set (children n1) - {ident}"
        using alive [of q n'] by blast
      show "map_of (nodes ?t') c = None"
      proof (cases "c \<in> set (children n1)")
        case True
        with l h have "c = ident" by auto
        with gone show ?thesis by simp
      next
        case False
        with p1 h n1 have "map_of (nodes t1) c = None" unfolding pruned_only_def by blast
        then show ?thesis by (rule dead)
      qed
    qed
    moreover have "dead_closed ?t' t"
      unfolding dead_closed_def
    proof (intro allI impI)
      fix q m c
      assume h: "map_of (nodes t) q = Some m \<and> map_of (nodes ?t') q = None \<and> c \<in> set (children m)"
      show "map_of (nodes ?t') c = None"
      proof (cases "map_of (nodes t1) q")
        case None
        with c1 h have "map_of (nodes t1) c = None" unfolding dead_closed_def by blast
        then show ?thesis by (rule dead)
      next
        case (Some n1)
        with h have "q = ident"
          by (auto simp: lookup_delete_node lookup_detach_spec split: if_splits)
        with h \<open>map_of (nodes t) ident = Some n\<close> have "c \<in> set (children n)" by simp
        with t1 have "map_of (nodes t1) c = None" by (rule removeChildren_spec_gone)
        then show ?thesis by (rule dead)
      qed
    qed
    ultimately show ?thesis by (simp add: r)
  qed
next
  case (3 depth t)
  then show ?case by (simp add: pruned_only_refl dead_closed_refl)
next
  case (4 depth t childId childIds)
  from "4.prems" obtain r where r: "removeNode_spec depth t childId = Some r"
    and rest: "removeChildren_spec depth (snd r) childIds = Some t'"
    by (auto split: option.splits)
  from "4.IH"(1) [OF r] have p1: "pruned_only (snd r) t" and c1: "dead_closed (snd r) t" by simp_all
  from "4.IH"(2) [OF r rest] have p2: "pruned_only t' (snd r)" and c2: "dead_closed t' (snd r)" by simp_all
  have s2: "shrinks t' (snd r)" by (rule removeNode_spec_shrinks(2) [OF rest])
  from pruned_only_trans [OF p2 p1 s2] dead_closed_trans [OF c2 c1 p1 s2] show ?case by simp
qed

lemma dead_closed_descendant:
  assumes "dead_closed t' t" and "map_of (nodes t') k = None" and "descendant t k x"
  shows "map_of (nodes t') x = None"
  using assms(3)
proof (induction rule: descendant.induct)
  case (child n c)
  with assms(1,2) show ?case unfolding dead_closed_def by blast
next
  case (step x n c)
  with assms(1) show ?case unfolding dead_closed_def by blast
qed

lemma removeNode_spec_descendants_gone:
  assumes "removeNode_spec depth t ident = Some (True, t')" and "descendant t ident x"
  shows "map_of (nodes t') x = None"
proof -
  from removeNode_spec_dead_closed(1) [OF assms(1)] have "dead_closed t' t" by simp
  moreover from removeNode_spec_gone [OF assms(1)] have "map_of (nodes t') ident = None" by simp
  ultimately show ?thesis using assms(2) by (rule dead_closed_descendant)
qed

subsection \<open>The code on a tree whose ids are not inherited names\<close>

lemma inherited_property_name:
  "inherited_property r k = Some v \<Longrightarrow> inherited_name k"
  by (auto simp: inherited_property_def inherited_name_def split: if_splits)

lemma lookup_node_plain:
  "\<not> inherited_name k \<Longrightarrow> lookup_node r t k = map_option OwnNode (map_of (nodes t) k)"
proof -
  assume "\<not> inherited_name k"
  then have "inherited_property r k = None"
    using inherited_property_name by (cases "inherited_property r k") auto
  then show ?thesis
    by (simp add: lookup_node_def split: option.splits)
qed

lemma plain_ids_lookup:
  assumes "plain_ids t" and "map_of (nodes t) k = Some n"
  shows "\<not> inherited_name k" "\<not> inherited_name (parent_id n)"
    "list_all (\<lambda>c. \<not> inherited_name c) (children n)"
proof -
  from assms(2) have "(k, n) \<in> set (nodes t)" by (rule map_of_SomeD)
  with assms(1) show "\<not> inherited_name k" "\<not> inherited_name (parent_id n)"
    "list_all (\<lambda>c. \<not> inherited_name c) (children n)"
    by (auto simp: plain_ids_def list_all_iff)
qed

lemma shrinks_plain:
  assumes "plain_ids t0" and "shrinks t t0" and "map_of (nodes t) k = Some n"
  shows "\<not> inherited_name (parent_id n)" "list_all (\<lambda>c. \<not> inherited_name c) (children n)"
proof -
  from assms(2,3) obtain n0 where n0: "map_of (nodes t0) k = Some n0"
    "parent_id n = parent_id n0" "set (children n) \<subseteq> set (children n0)"
    unfolding shrinks_def by blast
  from plain_ids_lookup(2) [OF assms(1) n0(1)] n0(2) show "\<not> inherited_name (parent_id n)"
    by simp
  from plain_ids_lookup(3) [OF assms(1) n0(1)] n0(3)
  show "list_all (\<lambda>c. \<not> inherited_name c) (children n)"
    by (auto simp: list_all_iff)
qed

lemma detach_refines:
  "\<not> inherited_name p \<Longrightarrow> detach (Some p) i r t = Some (r, detach_spec p i t)"
  by (cases "map_of (nodes t) p") (simp_all add: detach_def detach_spec_def lookup_node_plain Let_def)

text \<open>
  On such a tree the code is the removal of the specification: it throws nothing and leaves
  the global objects as they are.
\<close>

lemma removeNode_refines:
  "plain_ids t0 \<Longrightarrow> shrinks t t0 \<Longrightarrow> \<not> inherited_name ident \<Longrightarrow>
     removeNode depth r t ident = map_option (\<lambda>(b, t'). Inr (b, r, t')) (removeNode_spec depth t ident)"
  "plain_ids t0 \<Longrightarrow> shrinks t t0 \<Longrightarrow> list_all (\<lambda>c. \<not> inherited_name c) ids \<Longrightarrow>
     removeChildren depth r t ids = map_option (\<lambda>t'. Inr (r, t')) (removeChildren_spec depth t ids)"
proof (induction depth t ident and depth t ids rule: removeNode_spec_removeChildren_spec.induct)
  case (1 t ident)
  then show ?case by simp
next
  case (2 depth t ident)
  show ?case
  proof (cases "map_of (nodes t) ident")
    case None
    with "2.prems"(3) show ?thesis by (simp add: lookup_node_plain)
  next
    case (Some n)
    have look: "lookup_node r t ident = Some (OwnNode n)"
      using "2.prems"(3) Some by (simp add: lookup_node_plain)
    have kids: "list_all (\<lambda>c. \<not> inherited_name c) (children n)"
      and par: "\<not> inherited_name (parent_id n)"
      using shrinks_plain [OF "2.prems"(1,2) Some] by simp_all
    note ih = "2.IH" [OF Some "2.prems"(1,2) kids]
    show ?thesis
    proof (cases "removeChildren_spec depth t (children n)")
      case None
      with ih look Some show ?thesis
        by (simp add: value_children_def)
    next
      case (Some t1)
      with ih look \<open>map_of (nodes t) ident = Some n\<close> par show ?thesis
        by (simp add: value_children_def value_parent_id_def detach_refines)
    qed
  qed
next
  case (3 depth t)
  then show ?case by simp
next
  case (4 depth t childId childIds)
  from "4.prems"(3) have c: "\<not> inherited_name childId"
    and cs: "list_all (\<lambda>c. \<not> inherited_name c) childIds"
    by simp_all
  note ih1 = "4.IH"(1) [OF "4.prems"(1,2) c]
  show ?case
  proof (cases "removeNode_spec depth t childId")
    case None
    with ih1 show ?thesis by simp
  next
    case (Some res)
    from removeNode_spec_shrinks(1) [OF Some] "4.prems"(2) have "shrinks (snd res) t0"
      by (rule shrinks_trans)
    from "4.IH"(2) [OF Some "4.prems"(1) this cs] ih1 Some show ?thesis
      by (cases res) simp
  qed
qed

lemma addNode_absent_parent:
  assumes "parent_id n \<noteq> root_id (tree_root t)" and "lookup_node r t (parent_id n) = None"
  shows "\<exists>e. addNode r t n = Inl e"
  using assms by (simp add: addNode_def Let_def)

lemma wf_tree_removeNode_spec_returns:
  assumes wf: "wf_tree t" and n: "map_of (nodes t) ident = Some n"
  shows "\<exists>depth t'. removeNode_spec depth t ident = Some (True, t')"
proof -
  from n have "(ident, n) \<in> set (nodes t)" by (rule map_of_SomeD)
  with wf have "height_le (length (nodes t)) t ident"
    by (auto simp: wf_tree_def list_all_iff)
  then obtain r where r: "removeNode_spec (length (nodes t)) t ident = Some r"
    using removeNode_spec_returns(1) by blast
  with n have "fst r = True"
    by (cases "length (nodes t)") (auto split: option.splits)
  with r have "removeNode_spec (length (nodes t)) t ident = Some (True, snd r)"
    by (cases r) simp
  then show ?thesis by blast
qed

text \<open>
  Where no id is the name of an inherited value, the tree keeps the invariant of the
  specification: addNode throws for a parent id that is neither the root's nor a stored
  node's; and on a well-formed tree removeNode(id) of a stored node returns true and leaves
  the global objects alone, after which getNode(id) is null, neither the root's nor any
  surviving node's children list contains the id, and every descendant is removed as well.
\<close>

lemma tree_invariant_on_plain_ids:
  "(parent_id n \<noteq> root_id (tree_root t) \<and> map_of (nodes t) (parent_id n) = None
      \<and> \<not> inherited_name (parent_id n) \<longrightarrow> (\<exists>e. addNode r t n = Inl e))
   \<and> (wf_tree t \<and> plain_ids t \<and> map_of (nodes t) ident \<noteq> None \<longrightarrow>
        (\<exists>depth t'. removeNode depth r t ident = Some (Inr (True, r, t')))
        \<and> (\<forall>depth res. removeNode depth r t ident = Some res \<longrightarrow>
              (\<exists>t'. res = Inr (True, r, t')
                 \<and> getNode r t' ident = None
                 \<and> ident \<notin> set (root_children (tree_root t'))
                 \<and> (\<forall>k n'. map_of (nodes t') k = Some n' \<longrightarrow> ident \<notin> set (children n'))
                 \<and> (\<forall>x. descendant t ident x \<longrightarrow> getNode r t' x = None))))"
proof -
  have add: "parent_id n \<noteq> root_id (tree_root t) \<and> map_of (nodes t) (parent_id n) = None
      \<and> \<not> inherited_name (parent_id n) \<longrightarrow> (\<exists>e. addNode r t n = Inl e)"
    using addNode_absent_parent [of n t r] by (auto simp: lookup_node_plain)
  have refines: "removeNode depth r t ident
      = map_option (\<lambda>(b, t'). Inr (b, r, t')) (removeNode_spec depth t ident)"
    if "wf_tree t \<and> plain_ids t \<and> map_of (nodes t) ident \<noteq> None" for depth
    using that plain_ids_lookup(1) [of t ident] removeNode_refines(1) [OF _ shrinks_refl, of t ident depth r]
    by auto
  have returns: "\<exists>depth t'. removeNode depth r t ident = Some (Inr (True, r, t'))"
    if a: "wf_tree t \<and> plain_ids t \<and> map_of (nodes t) ident \<noteq> None"
  proof -
    from a obtain depth t' where "removeNode_spec depth t ident = Some (True, t')"
      using wf_tree_removeNode_spec_returns by blast
    with refines [OF a, of depth] show ?thesis by auto
  qed
  have after: "\<exists>t'. res = Inr (True, r, t')
        \<and> getNode r t' ident = None
        \<and> ident \<notin> set (root_children (tree_root t'))
        \<and> (\<forall>k n'. map_of (nodes t') k = Some n' \<longrightarrow> ident \<notin> set (children n'))
        \<and> (\<forall>x. descendant t ident x \<longrightarrow> getNode r t' x = None)"
    if a: "wf_tree t \<and> plain_ids t \<and> map_of (nodes t) ident \<noteq> None"
      and rm: "removeNode depth r t ident = Some res" for depth res
  proof -
    from a obtain m where m: "map_of (nodes t) ident = Some m" by auto
    from rm refines [OF a, of depth] obtain b t' where sp: "removeNode_spec depth t ident = Some (b, t')"
      and res: "res = Inr (b, r, t')"
      by auto
    from sp m have b: "b = True"
      by (cases depth) (auto split: option.splits)
    note sp = sp [unfolded b]
    from a have root: "map_of (nodes t) (root_id (tree_root t)) = None"
      and rootc: "list_all (child_of t (root_id (tree_root t))) (root_children (tree_root t))"
      and kids: "list_all (\<lambda>(k, n). list_all (child_of t k) (children n)) (nodes t)"
      by (simp_all add: wf_tree_def)
    note post = removeNode_spec_detached [OF sp root rootc kids]
    have rid: "root_id (tree_root t') = root_id (tree_root t)"
      using removeNode_spec_shrinks(1) [OF sp] by (simp add: shrinks_def)
    from a root have "ident \<noteq> root_id (tree_root t)" by auto
    moreover from a m have "\<not> inherited_name ident" using plain_ids_lookup(1) by blast
    ultimately have g: "getNode r t' ident = None"
      using post rid by (simp add: getNode_def lookup_node_plain)
    have d: "getNode r t' x = None" if x: "descendant t ident x" for x
    proof -
      from x obtain q nq where "map_of (nodes t) q = Some nq" "x \<in> set (children nq)"
        by (cases rule: descendant.cases) auto
      then have plain: "\<not> inherited_name x" and stored: "child_of t q x"
        using plain_ids_lookup(3) [of t q nq] a kids
        by (auto simp: list_all_iff dest!: map_of_SomeD)
      from stored root have "x \<noteq> root_id (tree_root t)"
        by (auto simp: child_of_def)
      with plain rid removeNode_spec_descendants_gone [OF sp x] show ?thesis
        by (simp add: getNode_def lookup_node_plain)
    qed
    from res b g post d show ?thesis by blast
  qed
  from add returns after show ?thesis by blast
qed

lemma wf_test_tree: "wf_tree test_tree"
  by (simp add: wf_tree_def test_tree_def createNode_def child_of_def)

lemma plain_ids_test_tree: "plain_ids test_tree"
  by (simp add: plain_ids_def test_tree_def createNode_def inherited_name_def
      OBJECT_PROTOTYPE_FUNCTIONS_def js_def)

text \<open>The test tree is what the three \<^verbatim>\<open>addNode\<close> calls of the repository's test build.\<close>

lemma test_tree_built:
  "(case addNode pristine empty_tree (createNode (js ''cap.a'') (js ''A'') (js ''mid'') (js ''cap'')) of
      Inl e \<Rightarrow> Inl e
    | Inr (r1, t1) \<Rightarrow>
       (case addNode r1 t1 (createNode (js ''cap.b'') (js ''B'') (js ''mid'') (js ''cap'')) of
          Inl e \<Rightarrow> Inl e
        | Inr (r2, t2) \<Rightarrow> addNode r2 t2 (createNode (js ''cap.a.x'') (js ''AX'') (js ''low'') (js ''cap.a''))))
   = Inr (pristine, test_tree)"
  by (simp add: addNode_def validateNode_def createNode_def empty_tree_def test_tree_def
      lookup_node_def inherited_property_def OBJECT_PROTOTYPE_FUNCTIONS_def
      VALID_LEVELS_def VALID_STATUSES_def update_children_def update_root_children_def Let_def js_def)

text \<open>The invariant on the test tree: an orphan is refused, and a subtree removed.\<close>

lemma tree_invariant_on_test_tree:
  "(\<exists>e. addNode pristine test_tree
           (createNode (js ''cap.orphan'') (js ''Orphan'') (js ''low'') (js ''nonexistent'')) = Inl e)
   \<and> (\<exists>depth t'. removeNode depth pristine test_tree (js ''cap.a'') = Some (Inr (True, pristine, t'))
         \<and> getNode pristine t' (js ''cap.a'') = None
         \<and> js ''cap.a'' \<notin> set (root_children (tree_root t'))
         \<and> getNode pristine t' (js ''cap.a.x'') = None)"
proof -
  have p: "parent_id (createNode (js ''cap.orphan'') (js ''Orphan'') (js ''low'') (js ''nonexistent''))
        \<noteq> root_id (tree_root test_tree)
      \<and> map_of (nodes test_tree)
          (parent_id (createNode (js ''cap.orphan'') (js ''Orphan'') (js ''low'') (js ''nonexistent''))) = None
      \<and> \<not> inherited_name
          (parent_id (createNode (js ''cap.orphan'') (js ''Orphan'') (js ''low'') (js ''nonexistent'')))"
    by (simp add: createNode_def test_tree_def inherited_name_def OBJECT_PROTOTYPE_FUNCTIONS_def js_def)
  have s: "map_of (nodes test_tree) (js ''cap.a'') \<noteq> None"
    by (simp add: test_tree_def)
  have "map_of (nodes test_tree) (js ''cap.a'')
      = Some ((createNode (js ''cap.a'') (js ''A'') (js ''mid'') (js ''cap''))\<lparr>children := [js ''cap.a.x'']\<rparr>)"
    by (simp add: test_tree_def)
  then have d: "descendant test_tree (js ''cap.a'') (js ''cap.a.x'')"
    by (rule descendant.child) simp
  show ?thesis
    using tree_invariant_on_plain_ids [of
        "createNode (js ''cap.orphan'') (js ''Orphan'') (js ''low'') (js ''nonexistent'')"
        test_tree pristine "js ''cap.a''"]
      p s d wf_test_tree plain_ids_test_tree
    by blast
qed

subsection \<open>The code on the name of an inherited value\<close>

text \<open>
  Claim C8 does not hold of the code where an id is the name of a property that every
  object inherits. On the empty tree of a fresh process, \<^verbatim>\<open>constructor\<close> is neither the
  root's id nor the id of a stored node, and the node is valid; yet addNode of a node with
  that parent id throws nothing: it stores the node and pushes its id to a new array
  \<^verbatim>\<open>Object.children\<close>. And removeNode of that id returns true on the same well-formed tree,
  changing nothing, after which getNode of the id is still the inherited function, not null.
\<close>

theorem addNode_removeNode_inherited_name:
  "js ''constructor'' \<noteq> root_id (tree_root empty_tree)
   \<and> map_of (nodes empty_tree) (js ''constructor'') = None
   \<and> validateNode (createNode (js ''cap.x'') (js ''X'') (js ''low'') (js ''constructor'')) = []
   \<and> addNode pristine empty_tree (createNode (js ''cap.x'') (js ''X'') (js ''low'') (js ''constructor''))
       = Inr (pristine\<lparr>fn_children := (fn_children pristine)(js ''constructor'' := Some [js ''cap.x''])\<rparr>,
              empty_tree\<lparr>nodes := [(js ''cap.x'',
                 createNode (js ''cap.x'') (js ''X'') (js ''low'') (js ''constructor''))]\<rparr>)
   \<and> wf_tree empty_tree
   \<and> removeNode 1 pristine empty_tree (js ''constructor'') = Some (Inr (True, pristine, empty_tree))
   \<and> getNode pristine empty_tree (js ''constructor'')
       = Some (Inr (InheritedValue (FunctionValue (js ''constructor''))))"
proof -
  have c: "js ''constructor'' \<in> set OBJECT_PROTOTYPE_FUNCTIONS"
    by (simp add: OBJECT_PROTOTYPE_FUNCTIONS_def)
  have x: "lookup_node pristine empty_tree (js ''cap.x'') = None"
    by (simp add: lookup_node_def inherited_property_def empty_tree_def pristine_def
        OBJECT_PROTOTYPE_FUNCTIONS_def js_def)
  have u: "lookup_node pristine empty_tree (js ''undefined'') = None"
    by (simp add: lookup_node_def inherited_property_def empty_tree_def pristine_def
        OBJECT_PROTOTYPE_FUNCTIONS_def js_def)
  have l: "lookup_node pristine empty_tree (js ''constructor'')
      = Some (InheritedValue (FunctionValue (js ''constructor'')))"
    using c by (simp add: lookup_node_def inherited_property_def empty_tree_def)
  have r: "js ''constructor'' \<noteq> root_id (tree_root empty_tree)"
    by (simp add: empty_tree_def js_def)
  have v: "validateNode (createNode (js ''cap.x'') (js ''X'') (js ''low'') (js ''constructor'')) = []"
    by (simp add: validateNode_def createNode_def VALID_LEVELS_def VALID_STATUSES_def js_def)
  have a: "addNode pristine empty_tree (createNode (js ''cap.x'') (js ''X'') (js ''low'') (js ''constructor''))
       = Inr (pristine\<lparr>fn_children := (fn_children pristine)(js ''constructor'' := Some [js ''cap.x''])\<rparr>,
              empty_tree\<lparr>nodes := [(js ''cap.x'',
                 createNode (js ''cap.x'') (js ''X'') (js ''low'') (js ''constructor''))]\<rparr>)"
    using v x l r
    by (simp add: addNode_def Let_def createNode_def push_inherited_def pristine_def empty_tree_def)
  have w: "wf_tree empty_tree"
    by (simp add: wf_tree_def empty_tree_def)
  have rm: "removeNode 1 pristine empty_tree (js ''constructor'') = Some (Inr (True, pristine, empty_tree))"
    using l u r
    by (simp add: value_children_def value_parent_id_def inherited_children_def pristine_def
        detach_def delete_node_def empty_tree_def Let_def)
  have g: "getNode pristine empty_tree (js ''constructor'')
       = Some (Inr (InheritedValue (FunctionValue (js ''constructor''))))"
    using l r by (simp add: getNode_def)
  from r v a w rm g show ?thesis
    by (simp add: empty_tree_def)
qed

section \<open>Properties of pruneStale\<close>

lemma stale_triggered: "stale now threshold n \<Longrightarrow> last_triggered n \<noteq> None \<and> status n \<noteq> js ''pruned''"
  by (auto simp: stale_def split: if_splits option.splits)

lemma map_of_map_entries:
  "map_of (map (\<lambda>(k, n). if P n then (k, g n) else (k, n)) ps) x
     = map_option (\<lambda>n. if P n then g n else n) (map_of ps x)"
  by (induction ps) auto

text \<open>
  Claim C10: pruneStale leaves the root and the ids as they are and changes no field of a
  node but its status; a node whose last_triggered is null is returned unchanged, whatever
  the threshold and its value score, and is not among the pruned ids.
\<close>

theorem pruneStale_frame:
  "tree_root (snd (pruneStale now threshold t)) = tree_root t
   \<and> map fst (nodes (snd (pruneStale now threshold t))) = map fst (nodes t)
   \<and> (\<forall>k n. map_of (nodes t) k = Some n \<longrightarrow>
         (\<exists>s. map_of (nodes (snd (pruneStale now threshold t))) k = Some (n\<lparr>status := s\<rparr>)))
   \<and> (\<forall>k n. map_of (nodes t) k = Some n \<and> last_triggered n = None \<longrightarrow>
         map_of (nodes (snd (pruneStale now threshold t))) k = Some n)
   \<and> (\<forall>k \<in> set (fst (pruneStale now threshold t)).
         \<exists>n. (k, n) \<in> set (nodes t) \<and> last_triggered n \<noteq> None)
   \<and> (distinct (map fst (nodes t)) \<longrightarrow>
        (\<forall>k n. map_of (nodes t) k = Some n \<and> last_triggered n = None \<longrightarrow>
           k \<notin> set (fst (pruneStale now threshold t))))"
proof -
  let ?t' = "snd (pruneStale now threshold t)"
  have r: "tree_root ?t' = tree_root t"
    by (simp add: pruneStale_def)
  have keys: "map fst (nodes ?t') = map fst (nodes t)"
    by (simp add: pruneStale_def comp_def case_prod_unfold)
  have look: "map_of (nodes ?t') k
      = map_option (\<lambda>n. if stale now threshold n then n\<lparr>status := js ''pruned''\<rparr> else n)
          (map_of (nodes t) k)" for k
    by (simp add: pruneStale_def map_of_map_entries)
  have only_status: "\<exists>s. map_of (nodes ?t') k = Some (n\<lparr>status := s\<rparr>)"
    if "map_of (nodes t) k = Some n" for k n
  proof (cases "stale now threshold n")
    case True
    with that look show ?thesis by auto
  next
    case False
    with that look have "map_of (nodes ?t') k = Some (n\<lparr>status := status n\<rparr>)" by simp
    then show ?thesis ..
  qed
  have untouched: "map_of (nodes ?t') k = Some n"
    if "map_of (nodes t) k = Some n \<and> last_triggered n = None" for k n
    using that look stale_triggered [of now threshold n] by auto
  have listed: "\<exists>n. (k, n) \<in> set (nodes t) \<and> last_triggered n \<noteq> None"
    if "k \<in> set (fst (pruneStale now threshold t))" for k
    using that stale_triggered by (fastforce simp: pruneStale_def)
  have not_listed: "k \<notin> set (fst (pruneStale now threshold t))"
    if d: "distinct (map fst (nodes t))"
      and kn: "map_of (nodes t) k = Some n \<and> last_triggered n = None" for k n
  proof
    assume "k \<in> set (fst (pruneStale now threshold t))"
    then obtain m where m: "(k, m) \<in> set (nodes t)" "stale now threshold m"
      by (auto simp: pruneStale_def)
    from d m(1) have "map_of (nodes t) k = Some m" by simp
    with kn have "m = n" by simp
    with m(2) kn stale_triggered [of now threshold n] show False by simp
  qed
  from r keys only_status untouched listed not_listed show ?thesis by blast
qed

text \<open>
  After a hundred days with a threshold of thirty, the node triggered at the epoch is
  pruned and the node never triggered is not.
\<close>

lemma pruneStale_stale_tree:
  "pruneStale 8640000000 30 stale_tree
   = ([js ''cap.old''],
      stale_tree\<lparr>nodes :=
        [(js ''cap.old'', (createNode (js ''cap.old'') (js ''Old'') (js ''low'') (js ''cap''))
                            \<lparr>last_triggered := Some 0, status := js ''pruned''\<rparr>),
         (js ''cap.new'', createNode (js ''cap.new'') (js ''New'') (js ''low'') (js ''cap''))]\<rparr>)"
  by (simp add: pruneStale_def stale_def stale_tree_def createNode_def)

theorem pruneStale_frame_witness:
  "map_of (nodes stale_tree) (js ''cap.new'')
     = Some (createNode (js ''cap.new'') (js ''New'') (js ''low'') (js ''cap''))
   \<and> last_triggered (createNode (js ''cap.new'') (js ''New'') (js ''low'') (js ''cap'')) = None
   \<and> distinct (map fst (nodes stale_tree))
   \<and> fst (pruneStale 8640000000 30 stale_tree) = [js ''cap.old'']
   \<and> map_of (nodes (snd (pruneStale 8640000000 30 stale_tree))) (js ''cap.new'')
       = Some (createNode (js ''cap.new'') (js ''New'') (js ''low'') (js ''cap''))
   \<and> js ''cap.new'' \<notin> set (fst (pruneStale 8640000000 30 stale_tree))"
proof -
  have a: "map_of (nodes stale_tree) (js ''cap.new'')
     = Some (createNode (js ''cap.new'') (js ''New'') (js ''low'') (js ''cap''))"
    by (simp add: stale_tree_def)
  have b: "last_triggered (createNode (js ''cap.new'') (js ''New'') (js ''low'') (js ''cap'')) = None"
    by (simp add: createNode_def)
  have c: "distinct (map fst (nodes stale_tree))"
    by (simp add: stale_tree_def)
  have d: "fst (pruneStale 8640000000 30 stale_tree) = [js ''cap.old'']"
    by (simp add: pruneStale_stale_tree)
  note frame = pruneStale_frame [of 8640000000 30 stale_tree]
  from frame a b have e: "map_of (nodes (snd (pruneStale 8640000000 30 stale_tree))) (js ''cap.new'')
       = Some (createNode (js ''cap.new'') (js ''New'') (js ''low'') (js ''cap''))"
    by blast
  from frame a b c have f: "js ''cap.new'' \<notin> set (fst (pruneStale 8640000000 30 stale_tree))"
    by blast
  from a b c d e f show ?thesis by simp
qed

section \<open>Properties of the pruner\<close>

lemma merge_pairs_iff:
  "(x, y) \<in> set (merge_pairs ns) \<longleftrightarrow>
     (\<exists>i j. i < j \<and> j < length ns \<and> x = node_id (ns ! i) \<and> y = node_id (ns ! j)
        \<and> jaccardSimilarity (tokenize (node_name (ns ! i))) (tokenize (node_name (ns ! j)))
            > MERGE_SIMILARITY_THRESHOLD)"
proof (induction ns)
  case Nil
  then show ?case by simp
next
  case (Cons a rest)
  let ?sim = "\<lambda>u v. jaccardSimilarity (tokenize (node_name u)) (tokenize (node_name v))
      > MERGE_SIMILARITY_THRESHOLD"
  have head: "(x = node_id a \<and> (\<exists>b \<in> set rest. y = node_id b \<and> ?sim a b))
      \<longleftrightarrow> (\<exists>j. 0 < j \<and> j < length (a # rest) \<and> x = node_id ((a # rest) ! 0)
            \<and> y = node_id ((a # rest) ! j) \<and> ?sim ((a # rest) ! 0) ((a # rest) ! j))"
  proof
    assume l: "x = node_id a \<and> (\<exists>b \<in> set rest. y = node_id b \<and> ?sim a b)"
    then obtain b where b: "b \<in> set rest" "y = node_id b" "?sim a b" by blast
    from b(1) obtain j where j: "j < length rest" "rest ! j = b"
      by (auto simp: in_set_conv_nth)
    with l b show "\<exists>j. 0 < j \<and> j < length (a # rest) \<and> x = node_id ((a # rest) ! 0)
            \<and> y = node_id ((a # rest) ! j) \<and> ?sim ((a # rest) ! 0) ((a # rest) ! j)"
      by (intro exI [of _ "Suc j"]) simp
  next
    assume "\<exists>j. 0 < j \<and> j < length (a # rest) \<and> x = node_id ((a # rest) ! 0)
            \<and> y = node_id ((a # rest) ! j) \<and> ?sim ((a # rest) ! 0) ((a # rest) ! j)"
    then obtain j where j: "0 < j" "j < length (a # rest)" "x = node_id a"
        "y = node_id ((a # rest) ! j)" "?sim a ((a # rest) ! j)"
      by auto
    from j(1) obtain j' where j': "j = Suc j'" by (cases j) auto
    with j have "rest ! j' \<in> set rest" "y = node_id (rest ! j')" "?sim a (rest ! j')"
      by auto
    with j(3) show "x = node_id a \<and> (\<exists>b \<in> set rest. y = node_id b \<and> ?sim a b)"
      by blast
  qed
  have tail: "(\<exists>i j. i < j \<and> j < length rest \<and> x = node_id (rest ! i) \<and> y = node_id (rest ! j)
          \<and> ?sim (rest ! i) (rest ! j))
      \<longleftrightarrow> (\<exists>i j. 0 < i \<and> i < j \<and> j < length (a # rest) \<and> x = node_id ((a # rest) ! i)
            \<and> y = node_id ((a # rest) ! j) \<and> ?sim ((a # rest) ! i) ((a # rest) ! j))"
  proof
    assume "\<exists>i j. i < j \<and> j < length rest \<and> x = node_id (rest ! i) \<and> y = node_id (rest ! j)
          \<and> ?sim (rest ! i) (rest ! j)"
    then obtain i j where "i < j" "j < length rest" "x = node_id (rest ! i)"
        "y = node_id (rest ! j)" "?sim (rest ! i) (rest ! j)"
      by blast
    then show "\<exists>i j. 0 < i \<and> i < j \<and> j < length (a # rest) \<and> x = node_id ((a # rest) ! i)
            \<and> y = node_id ((a # rest) ! j) \<and> ?sim ((a # rest) ! i) ((a # rest) ! j)"
      by (intro exI [of _ "Suc i"] exI [of _ "Suc j"]) simp
  next
    assume "\<exists>i j. 0 < i \<and> i < j \<and> j < length (a # rest) \<and> x = node_id ((a # rest) ! i)
            \<and> y = node_id ((a # rest) ! j) \<and> ?sim ((a # rest) ! i) ((a # rest) ! j)"
    then obtain i j where ij: "0 < i" "i < j" "j < length (a # rest)" "x = node_id ((a # rest) ! i)"
        "y = node_id ((a # rest) ! j)" "?sim ((a # rest) ! i) ((a # rest) ! j)"
      by blast
    from ij(1) obtain i' where i': "i = Suc i'" by (cases i) auto
    from ij(1,2) obtain j' where j': "j = Suc j'" by (cases j) auto
    from ij i' j' show "\<exists>i j. i < j \<and> j < length rest \<and> x = node_id (rest ! i)
          \<and> y = node_id (rest ! j) \<and> ?sim (rest ! i) (rest ! j)"
      by (intro exI [of _ i'] exI [of _ j']) simp
  qed
  have split: "(\<exists>i j. i < j \<and> j < length (a # rest) \<and> x = node_id ((a # rest) ! i)
        \<and> y = node_id ((a # rest) ! j) \<and> ?sim ((a # rest) ! i) ((a # rest) ! j))
      \<longleftrightarrow> (\<exists>j. 0 < j \<and> j < length (a # rest) \<and> x = node_id ((a # rest) ! 0)
            \<and> y = node_id ((a # rest) ! j) \<and> ?sim ((a # rest) ! 0) ((a # rest) ! j))
        \<or> (\<exists>i j. 0 < i \<and> i < j \<and> j < length (a # rest) \<and> x = node_id ((a # rest) ! i)
            \<and> y = node_id ((a # rest) ! j) \<and> ?sim ((a # rest) ! i) ((a # rest) ! j))"
  proof
    assume "\<exists>i j. i < j \<and> j < length (a # rest) \<and> x = node_id ((a # rest) ! i)
        \<and> y = node_id ((a # rest) ! j) \<and> ?sim ((a # rest) ! i) ((a # rest) ! j)"
    then obtain i j where ij: "i < j" "j < length (a # rest)" "x = node_id ((a # rest) ! i)"
        "y = node_id ((a # rest) ! j)" "?sim ((a # rest) ! i) ((a # rest) ! j)"
      by blast
    show "(\<exists>j. 0 < j \<and> j < length (a # rest) \<and> x = node_id ((a # rest) ! 0)
            \<and> y = node_id ((a # rest) ! j) \<and> ?sim ((a # rest) ! 0) ((a # rest) ! j))
        \<or> (\<exists>i j. 0 < i \<and> i < j \<and> j < length (a # rest) \<and> x = node_id ((a # rest) ! i)
            \<and> y = node_id ((a # rest) ! j) \<and> ?sim ((a # rest) ! i) ((a # rest) ! j))"
    proof (cases "i = 0")
      case True
      with ij have "0 < j \<and> j < length (a # rest) \<and> x = node_id ((a # rest) ! 0)
            \<and> y = node_id ((a # rest) ! j) \<and> ?sim ((a # rest) ! 0) ((a # rest) ! j)"
        by simp
      then show ?thesis by blast
    next
      case False
      with ij have "0 < i \<and> i < j \<and> j < length (a # rest) \<and> x = node_id ((a # rest) ! i)
            \<and> y = node_id ((a # rest) ! j) \<and> ?sim ((a # rest) ! i) ((a # rest) ! j)"
        by simp
      then show ?thesis by blast
    qed
  next
    assume "(\<exists>j. 0 < j \<and> j < length (a # rest) \<and> x = node_id ((a # rest) ! 0)
            \<and> y = node_id ((a # rest) ! j) \<and> ?sim ((a # rest) ! 0) ((a # rest) ! j))
        \<or> (\<exists>i j. 0 < i \<and> i < j \<and> j < length (a # rest) \<and> x = node_id ((a # rest) ! i)
            \<and> y = node_id ((a # rest) ! j) \<and> ?sim ((a # rest) ! i) ((a # rest) ! j))"
    then show "\<exists>i j. i < j \<and> j < length (a # rest) \<and> x = node_id ((a # rest) ! i)
        \<and> y = node_id ((a # rest) ! j) \<and> ?sim ((a # rest) ! i) ((a # rest) ! j)"
      by blast
  qed
  have "(x, y) \<in> set (merge_pairs (a # rest)) \<longleftrightarrow>
      (x = node_id a \<and> (\<exists>b \<in> set rest. y = node_id b \<and> ?sim a b))
      \<or> (x, y) \<in> set (merge_pairs rest)"
    by auto
  then show ?case
    unfolding Cons.IH head tail split by simp
qed

lemma tokenize_rich_a:
  "tokenize (js ''Rich Messaging Handler'') = [js ''rich'', js ''messaging'', js ''handler'']"
  by (simp add: tokenize_def toLowerCase_def is_space_def js_def)

lemma tokenize_rich_b:
  "tokenize (js ''Handler for rich messaging'')
     = [js ''handler'', js ''for'', js ''rich'', js ''messaging'']"
  by (simp add: tokenize_def toLowerCase_def is_space_def js_def)

lemma jaccard_rich:
  "jaccardSimilarity (tokenize (node_name rich_a)) (tokenize (node_name rich_b)) = 3 / 4"
  by (simp add: rich_a_def rich_b_def createNode_def tokenize_rich_a tokenize_rich_b
      jaccardSimilarity_def)

lemma merge_rich: "merge_suggestions (analyzePruning now [rich_a, rich_b]) = []"
proof -
  have "status rich_a \<noteq> js ''pruned''" "status rich_b \<noteq> js ''pruned''"
    by (simp_all add: rich_a_def rich_b_def createNode_def)
  then show ?thesis
    by (simp add: analyzePruning_def jaccard_rich MERGE_SIMILARITY_THRESHOLD_def)
qed

text \<open>
  Claim C4, as stated, fails: the two names share three of four distinct tokens, so their
  similarity is 3/4, which is not at least 0.8, and the pair is not suggested for merging.
\<close>

theorem merge_suggestion_counterexample:
  "status rich_a \<noteq> js ''pruned'' \<and> status rich_b \<noteq> js ''pruned''
   \<and> node_name rich_a = js ''Rich Messaging Handler''
   \<and> node_name rich_b = js ''Handler for rich messaging''
   \<and> \<not> (0.8 \<le> jaccardSimilarity (tokenize (node_name rich_a)) (tokenize (node_name rich_b)))
   \<and> (node_id rich_a, node_id rich_b) \<notin> set (merge_suggestions (analyzePruning 0 [rich_a, rich_b]))
   \<and> (node_id rich_b, node_id rich_a) \<notin> set (merge_suggestions (analyzePruning 0 [rich_b, rich_a]))"
proof -
  have s: "status rich_a \<noteq> js ''pruned''" "status rich_b \<noteq> js ''pruned''"
    "node_name rich_a = js ''Rich Messaging Handler''"
    "node_name rich_b = js ''Handler for rich messaging''"
    by (simp_all add: rich_a_def rich_b_def createNode_def)
  have j: "jaccardSimilarity (tokenize (node_name rich_b)) (tokenize (node_name rich_a)) = 3 / 4"
    by (simp add: rich_a_def rich_b_def createNode_def tokenize_rich_a tokenize_rich_b
        jaccardSimilarity_def)
  have m: "merge_suggestions (analyzePruning 0 [rich_b, rich_a]) = []"
    using s(1,2) by (simp add: analyzePruning_def j MERGE_SIMILARITY_THRESHOLD_def)
  have below: "\<not> (0.8 \<le> jaccardSimilarity (tokenize (node_name rich_a)) (tokenize (node_name rich_b)))"
    by (simp add: jaccard_rich)
  from s m below show ?thesis
    by (simp add: merge_rich)
qed

text \<open>
  Claim C4, amended: the pruner's name-similarity analysis reports exactly the pairs of
  non-pruned nodes, in list order, whose token-set Jaccard similarity is above 0.8
  (tokens lowercased, split on white space and dots); the nodes named
  "Rich Messaging Handler" and "Handler for rich messaging" have similarity 3/4 and are
  not reported.
\<close>

theorem merge_suggestions_threshold:
  "((x, y) \<in> set (merge_suggestions (analyzePruning now ns)) \<longleftrightarrow>
      (\<exists>i j. i < j \<and> j < length (filter (\<lambda>n. status n \<noteq> js ''pruned'') ns)
         \<and> x = node_id (filter (\<lambda>n. status n \<noteq> js ''pruned'') ns ! i)
         \<and> y = node_id (filter (\<lambda>n. status n \<noteq> js ''pruned'') ns ! j)
         \<and> jaccardSimilarity
              (tokenize (node_name (filter (\<lambda>n. status n \<noteq> js ''pruned'') ns ! i)))
              (tokenize (node_name (filter (\<lambda>n. status n \<noteq> js ''pruned'') ns ! j))) > 0.8))
   \<and> jaccardSimilarity (tokenize (js ''Rich Messaging Handler''))
        (tokenize (js ''Handler for rich messaging'')) = 3 / 4
   \<and> merge_suggestions (analyzePruning now [rich_a, rich_b]) = []"
proof -
  have "merge_suggestions (analyzePruning now ns)
      = merge_pairs (filter (\<lambda>n. status n \<noteq> js ''pruned'') ns)"
    by (simp add: analyzePruning_def)
  moreover have "jaccardSimilarity (tokenize (js ''Rich Messaging Handler''))
        (tokenize (js ''Handler for rich messaging'')) = 3 / 4"
    using jaccard_rich by (simp add: rich_a_def rich_b_def createNode_def)
  ultimately show ?thesis
    using merge_pairs_iff [of x y "filter (\<lambda>n. status n \<noteq> js ''pruned'') ns"] merge_rich
    by (simp add: MERGE_SIMILARITY_THRESHOLD_def)
qed

text \<open>Two nodes of the same name (similarity 1) are reported.\<close>

theorem merge_suggestions_threshold_witness:
  "(js ''cap.rich'', js ''cap.rich2'')
     \<in> set (merge_suggestions (analyzePruning 0 [rich_a, rich_a\<lparr>node_id := js ''cap.rich2''\<rparr>]))"
proof -
  let ?ns = "[rich_a, rich_a\<lparr>node_id := js ''cap.rich2''\<rparr>]"
  have f: "filter (\<lambda>n. status n \<noteq> js ''pruned'') ?ns = ?ns"
    by (simp add: rich_a_def createNode_def)
  have j: "jaccardSimilarity (tokenize (node_name rich_a)) (tokenize (node_name rich_a)) = 1"
    by (simp add: rich_a_def createNode_def tokenize_rich_a jaccardSimilarity_def)
  have "\<exists>i j. i < j \<and> j < length (filter (\<lambda>n. status n \<noteq> js ''pruned'') ?ns)
         \<and> js ''cap.rich'' = node_id (filter (\<lambda>n. status n \<noteq> js ''pruned'') ?ns ! i)
         \<and> js ''cap.rich2'' = node_id (filter (\<lambda>n. status n \<noteq> js ''pruned'') ?ns ! j)
         \<and> jaccardSimilarity
              (tokenize (node_name (filter (\<lambda>n. status n \<noteq> js ''pruned'') ?ns ! i)))
              (tokenize (node_name (filter (\<lambda>n. status n \<noteq> js ''pruned'') ?ns ! j))) > 0.8"
    unfolding f
    by (intro exI [of _ 0] exI [of _ 1]) (simp add: j, simp add: rich_a_def createNode_def)
  then show ?thesis
    using merge_suggestions_threshold [of "js ''cap.rich''" "js ''cap.rich2''" 0 ?ns]
    by blast
qed

section \<open>Properties of the asset store\<close>

lemma readJSON_missing_or_blank:
  "missing_or_blank disk filename \<Longrightarrow> readJSON disk filename = Inr (empty_for filename)"
  by (auto simp: missing_or_blank_def readJSON_def Let_def split: option.splits)

lemma readJSON_unparsable:
  "unparsable disk filename \<Longrightarrow> readJSON disk filename = Inl SyntaxError"
  by (auto simp: unparsable_def readJSON_def Let_def split: option.splits)

lemma parse_lines_unparsable:
  "list_ex (\<lambda>line. JSON_parse line = None) ls \<Longrightarrow> parse_lines ls = Inl SyntaxError"
proof (induction ls)
  case Nil
  then show ?case by simp
next
  case (Cons line rest)
  show ?case
  proof (cases "JSON_parse line")
    case None
    then show ?thesis by simp
  next
    case (Some v)
    with Cons.prems have "list_ex (\<lambda>line. JSON_parse line = None) rest" by simp
    with Cons.IH have "parse_lines rest = Inl SyntaxError" by simp
    with Some show ?thesis by simp
  qed
qed

lemma readJSONL_missing_or_blank:
  "missing_or_blank disk filename \<Longrightarrow> readJSONL disk filename = Inr []"
  by (auto simp: missing_or_blank_def readJSONL_def Let_def split: option.splits)

lemma readJSONL_unparsable:
  assumes "unparsable_line disk filename"
  shows "readJSONL disk filename = Inl SyntaxError"
proof -
  from assms obtain content where c: "disk (assetPath filename) = Some content"
    and ne: "trim content \<noteq> []"
    and ex: "list_ex (\<lambda>line. line \<noteq> [] \<and> JSON_parse line = None) (split_on 10 (trim content) [])"
    by (auto simp: unparsable_line_def split: option.splits)
  from ex have "list_ex (\<lambda>line. JSON_parse line = None)
      (filter (\<lambda>line. line \<noteq> []) (split_on 10 (trim content) []))"
    by (auto simp: list_ex_iff)
  then have "parse_lines (filter (\<lambda>line. line \<noteq> []) (split_on 10 (trim content) [])) = Inl SyntaxError"
    by (rule parse_lines_unparsable)
  with c ne show ?thesis
    by (simp add: readJSONL_def Let_def)
qed

lemma JSON_parse_truncated: "JSON_parse (js ''[{'') = None"
  by code_simp

lemma trim_truncated: "trim (js ''[{'') = js ''[{''"
  by (simp add: trim_def is_space_def js_def)

lemma empty_for_json:
  "empty_for (js ''genes.json'') = JArray []"
  "empty_for (js ''capsules.json'') = JArray []"
  "empty_for (js ''capability_tree.json'') = JArray []"
  by code_simp+

text \<open>
  Claim C2, as stated, fails: when every store file holds the unparsable text of a write cut
  short, each of the four loaders throws the parser's error; none returns the empty
  collection.
\<close>

theorem load_unparsable_counterexample:
  "JSON_parse (js ''[{'') = None
   \<and> truncated_files (assetPath (js ''genes.json'')) = Some (js ''[{'')
   \<and> loadGenes truncated_files = Inl SyntaxError
   \<and> loadCapsules truncated_files = Inl SyntaxError
   \<and> loadEvents truncated_files = Inl SyntaxError
   \<and> loadCapabilityTree truncated_files = Inl SyntaxError
   \<and> loadGenes truncated_files \<noteq> Inr (JArray [])"
proof -
  have u: "unparsable truncated_files f" for f
    by (simp add: unparsable_def truncated_files_def trim_truncated JSON_parse_truncated)
      (simp add: js_def)
  have "split_on 10 (js ''[{'') [] = [js ''[{'']"
    by (simp add: js_def)
  then have ul: "unparsable_line truncated_files f" for f
    by (simp add: unparsable_line_def truncated_files_def trim_truncated JSON_parse_truncated)
      (simp add: js_def)
  show ?thesis
    using u ul
    by (simp add: loadGenes_def loadCapsules_def loadEvents_def loadCapabilityTree_def
        readJSON_unparsable readJSONL_unparsable JSON_parse_truncated truncated_files_def)
qed

text \<open>
  Claim C2, amended: for every stored collection (genes, capsules, events, tree), loading
  a store file that is missing or blank yields the empty collection; loading a store file
  whose content is unparsable JSON (for the event log: that has an unparsable line) does
  not yield a collection: the parser's error propagates to the caller.
\<close>

theorem load_missing_empty_unparsable_throws:
  "(missing_or_blank disk (js ''genes.json'') \<longrightarrow> loadGenes disk = Inr (JArray []))
   \<and> (missing_or_blank disk (js ''capsules.json'') \<longrightarrow> loadCapsules disk = Inr (JArray []))
   \<and> (missing_or_blank disk (js ''events.jsonl'') \<longrightarrow> loadEvents disk = Inr [])
   \<and> (missing_or_blank disk (js ''capability_tree.json'') \<longrightarrow> loadCapabilityTree disk = Inr (JArray []))
   \<and> (unparsable disk (js ''genes.json'') \<longrightarrow> loadGenes disk = Inl SyntaxError)
   \<and> (unparsable disk (js ''capsules.json'') \<longrightarrow> loadCapsules disk = Inl SyntaxError)
   \<and> (unparsable_line disk (js ''events.jsonl'') \<longrightarrow> loadEvents disk = Inl SyntaxError)
   \<and> (unparsable disk (js ''capability_tree.json'') \<longrightarrow> loadCapabilityTree disk = Inl SyntaxError)"
  by (simp add: loadGenes_def loadCapsules_def loadEvents_def loadCapabilityTree_def
      readJSON_missing_or_blank readJSON_unparsable readJSONL_missing_or_blank
      readJSONL_unparsable empty_for_json)

theorem load_missing_empty_unparsable_throws_witness:
  "missing_or_blank Map.empty (js ''genes.json'')
   \<and> missing_or_blank Map.empty (js ''capsules.json'')
   \<and> missing_or_blank Map.empty (js ''events.jsonl'')
   \<and> missing_or_blank Map.empty (js ''capability_tree.json'')
   \<and> loadGenes Map.empty = Inr (JArray [])
   \<and> loadCapsules Map.empty = Inr (JArray [])
   \<and> loadEvents Map.empty = Inr []
   \<and> loadCapabilityTree Map.empty = Inr (JArray [])
   \<and> unparsable truncated_files (js ''genes.json'')
   \<and> unparsable truncated_files (js ''capsules.json'')
   \<and> unparsable_line truncated_files (js ''events.jsonl'')
   \<and> unparsable truncated_files (js ''capability_tree.json'')
   \<and> loadGenes truncated_files = Inl SyntaxError
   \<and> loadCapsules truncated_files = Inl SyntaxError
   \<and> loadEvents truncated_files = Inl SyntaxError
   \<and> loadCapabilityTree truncated_files = Inl SyntaxError"
proof -
  have m: "missing_or_blank Map.empty f" for f
    by (simp add: missing_or_blank_def)
  have u: "unparsable truncated_files f" for f
    by (simp add: unparsable_def truncated_files_def trim_truncated JSON_parse_truncated)
      (simp add: js_def)
  have "split_on 10 (js ''[{'') [] = [js ''[{'']"
    by (simp add: js_def)
  then have ul: "unparsable_line truncated_files f" for f
    by (simp add: unparsable_line_def truncated_files_def trim_truncated JSON_parse_truncated)
      (simp add: js_def)
  note e = load_missing_empty_unparsable_throws [of Map.empty]
  note c = load_missing_empty_unparsable_throws [of truncated_files]
  from e m have e1: "loadGenes Map.empty = Inr (JArray [])" by simp
  from e m have e2: "loadCapsules Map.empty = Inr (JArray [])" by simp
  from e m have e3: "loadEvents Map.empty = Inr []" by simp
  from e m have e4: "loadCapabilityTree Map.empty = Inr (JArray [])" by simp
  from c u have c1: "loadGenes truncated_files = Inl SyntaxError" by simp
  from c u have c2: "loadCapsules truncated_files = Inl SyntaxError" by simp
  from c ul have c3: "loadEvents truncated_files = Inl SyntaxError" by simp
  from c u have c4: "loadCapabilityTree truncated_files = Inl SyntaxError" by simp
  from m u ul e1 e2 e3 e4 c1 c2 c3 c4 show ?thesis by simp
qed

section \<open>Properties of the signal extractor\<close>

lemma in_add_signal [simp]: "x \<in> set (add_signal s sigs) \<longleftrightarrow> x = s \<or> x \<in> set sigs"
  by (auto simp: add_signal_def)

text \<open>No signal built from a prefix and a detail is the stagnation signal.\<close>

lemma prefixed_not_stagnation:
  "js ''errsig:'' @ x \<noteq> js ''evolution_stagnation''"
  "js ''high_tool_usage:'' @ x \<noteq> js ''evolution_stagnation''"
  "js ''repeated_tool_usage:'' @ x \<noteq> js ''evolution_stagnation''"
  "js ''capability_candidate:'' @ x \<noteq> js ''evolution_stagnation''"
  "js ''evolution_stagnation'' \<noteq> js ''errsig:'' @ x"
  "js ''evolution_stagnation'' \<noteq> js ''high_tool_usage:'' @ x"
  "js ''evolution_stagnation'' \<noteq> js ''repeated_tool_usage:'' @ x"
  "js ''evolution_stagnation'' \<noteq> js ''capability_candidate:'' @ x"
  by (simp_all add: js_def)

lemma stagnation_error_step:
  "js ''evolution_stagnation'' \<in> set (fst (error_step e st))
     \<longleftrightarrow> js ''evolution_stagnation'' \<in> set (fst st)"
  by (auto simp: error_step_def Let_def prefixed_not_stagnation)

lemma stagnation_error_pass:
  "js ''evolution_stagnation'' \<in> set (fst (fold error_step es st))
     \<longleftrightarrow> js ''evolution_stagnation'' \<in> set (fst st)"
  by (induction es arbitrary: st) (simp_all add: stagnation_error_step)

lemma stagnation_feature_step:
  "js ''evolution_stagnation'' \<in> set (feature_step e sigs)
     \<longleftrightarrow> js ''evolution_stagnation'' \<in> set sigs"
  by (auto simp: feature_step_def Let_def split: entry_message.splits)

lemma stagnation_feature_pass:
  "js ''evolution_stagnation'' \<in> set (fold feature_step es sigs)
     \<longleftrightarrow> js ''evolution_stagnation'' \<in> set sigs"
  by (induction es arbitrary: sigs) (simp_all add: stagnation_feature_step)

lemma stagnation_plateau_pass:
  "js ''evolution_stagnation'' \<in> set (plateau_pass es sigs)
     \<longleftrightarrow> js ''evolution_stagnation'' \<in> set sigs"
  by (auto simp: plateau_pass_def Let_def)

lemma stagnation_high_usage_fold:
  "js ''evolution_stagnation'' \<in> set
      (fold (\<lambda>tool acc. if count_list tools tool \<ge> 5 then add_signal (js ''high_tool_usage:'' @ tool) acc
                          else acc) ts sigs)
     \<longleftrightarrow> js ''evolution_stagnation'' \<in> set sigs"
  by (induction ts arbitrary: sigs) (auto simp: prefixed_not_stagnation)

lemma stagnation_repeated_loop:
  "js ''evolution_stagnation'' \<in> set (repeated_loop prev n ts sigs)
     \<longleftrightarrow> js ''evolution_stagnation'' \<in> set sigs"
  by (induction prev n ts sigs rule: repeated_loop.induct) (auto simp: prefixed_not_stagnation)

lemma stagnation_repeated_pass:
  "js ''evolution_stagnation'' \<in> set (repeated_pass tools sigs)
     \<longleftrightarrow> js ''evolution_stagnation'' \<in> set sigs"
  by (simp add: repeated_pass_def stagnation_repeated_loop split: list.splits)

lemma stagnation_stagnation_pass:
  "js ''evolution_stagnation'' \<in> set (stagnation_pass es sigs)
     \<longleftrightarrow> js ''evolution_stagnation'' \<in> set sigs
         \<or> (5 \<le> length (filter is_assistant es) \<and> list_all is_error_msg (filter is_assistant es))"
  by (auto simp: stagnation_pass_def Let_def)

lemma recurring_stagnation_pass:
  "5 \<le> length (filter is_assistant es) \<Longrightarrow> list_all is_error_msg (filter is_assistant es)
   \<Longrightarrow> js ''recurring_error'' \<in> set (stagnation_pass es sigs)"
  by (simp add: stagnation_pass_def Let_def)

lemma capability_step_keeps: "x \<in> set sigs \<Longrightarrow> x \<in> set (capability_step e sigs)"
  by (simp add: capability_step_def Let_def)

lemma capability_pass_keeps: "x \<in> set sigs \<Longrightarrow> x \<in> set (fold capability_step es sigs)"
  by (induction es arbitrary: sigs) (simp_all add: capability_step_keeps)

lemma stagnation_capability_step:
  "js ''evolution_stagnation'' \<in> set (capability_step e sigs)
     \<longleftrightarrow> js ''evolution_stagnation'' \<in> set sigs"
  by (auto simp: capability_step_def Let_def prefixed_not_stagnation)

lemma stagnation_capability_pass:
  "js ''evolution_stagnation'' \<in> set (fold capability_step es sigs)
     \<longleftrightarrow> js ''evolution_stagnation'' \<in> set sigs"
  by (induction es arbitrary: sigs) (simp_all add: stagnation_capability_step)

text \<open>The stagnation signal is emitted exactly when all of at least five responses failed.\<close>

lemma evolution_stagnation_iff:
  "js ''evolution_stagnation'' \<in> set (extractSignals entries)
     \<longleftrightarrow> 5 \<le> length (filter is_assistant entries) \<and> list_all is_error_msg (filter is_assistant entries)"
proof (cases "entries = []")
  case True
  then show ?thesis by (simp add: extractSignals_def)
next
  case False
  then show ?thesis
    by (simp add: extractSignals_def Let_def stagnation_capability_pass stagnation_stagnation_pass
        stagnation_repeated_pass high_usage_pass_def stagnation_high_usage_fold
        stagnation_plateau_pass stagnation_feature_pass stagnation_error_pass)
qed

lemma recurring_error_emitted:
  assumes "5 \<le> length (filter is_assistant entries)"
    and "list_all is_error_msg (filter is_assistant entries)"
  shows "js ''recurring_error'' \<in> set (extractSignals entries)"
proof -
  from assms(1) have "entries \<noteq> []" by auto
  then show ?thesis
    by (simp add: extractSignals_def Let_def capability_pass_keeps
        recurring_stagnation_pass [OF assms])
qed

lemma assistants_late_failures: "filter is_assistant late_failures = late_failures"
  by (simp add: late_failures_def is_assistant_def message_role_def assistant_ok_def
      assistant_error_def)

lemma is_error_msg_examples:
  "\<not> is_error_msg assistant_ok" "is_error_msg (assistant_error m)"
  by (simp_all add: is_error_msg_def message_stopReason_def message_errorMessage_def truthy_def
      assistant_ok_def assistant_error_def)

text \<open>
  Claim C3, as stated, fails: in a session of six responses of which the first succeeded
  and the five most recent ones failed, the five most recent response entries are all error
  entries, yet 'evolution_stagnation' is not emitted.
\<close>

theorem extractSignals_recent_errors_counterexample:
  "length (filter is_assistant late_failures) = 6
   \<and> list_all is_error_msg (last_n 5 (filter is_assistant late_failures))
   \<and> js ''evolution_stagnation'' \<notin> set (extractSignals late_failures)"
proof -
  have n: "length (filter is_assistant late_failures) = 6"
    by (simp add: assistants_late_failures) (simp add: late_failures_def)
  have recent: "list_all is_error_msg (last_n 5 (filter is_assistant late_failures))"
    by (simp add: assistants_late_failures) (simp add: late_failures_def last_n_def is_error_msg_examples)
  have "\<not> list_all is_error_msg (filter is_assistant late_failures)"
    by (simp add: assistants_late_failures) (simp add: late_failures_def is_error_msg_examples)
  then have "js ''evolution_stagnation'' \<notin> set (extractSignals late_failures)"
    by (simp add: evolution_stagnation_iff)
  with n recent show ?thesis by simp
qed

text \<open>
  Claim C3, amended: for every interaction-log entry sequence that has at least 5 response
  (assistant) entries, all of which are error entries, extractSignals emits both
  'recurring_error' and 'evolution_stagnation'; and 'evolution_stagnation' is emitted for no
  other sequence.
\<close>

theorem extractSignals_all_responses_failed:
  "(5 \<le> length (filter is_assistant entries) \<and> list_all is_error_msg (filter is_assistant entries)
      \<longrightarrow> js ''recurring_error'' \<in> set (extractSignals entries)
          \<and> js ''evolution_stagnation'' \<in> set (extractSignals entries))
   \<and> (js ''evolution_stagnation'' \<in> set (extractSignals entries)
      \<longrightarrow> 5 \<le> length (filter is_assistant entries)
          \<and> list_all is_error_msg (filter is_assistant entries))"
  using evolution_stagnation_iff [of entries] recurring_error_emitted [of entries]
  by blast

theorem extractSignals_all_responses_failed_witness:
  "5 \<le> length (filter is_assistant (tl late_failures))
   \<and> list_all is_error_msg (filter is_assistant (tl late_failures))
   \<and> js ''recurring_error'' \<in> set (extractSignals (tl late_failures))
   \<and> js ''evolution_stagnation'' \<in> set (extractSignals (tl late_failures))"
proof -
  have f: "filter is_assistant (tl late_failures) = tl late_failures"
    by (simp add: late_failures_def is_assistant_def message_role_def assistant_ok_def
        assistant_error_def)
  have n: "5 \<le> length (filter is_assistant (tl late_failures))"
    by (simp add: f) (simp add: late_failures_def)
  have a: "list_all is_error_msg (filter is_assistant (tl late_failures))"
    by (simp add: f) (simp add: late_failures_def is_error_msg_examples)
  from n a extractSignals_all_responses_failed [of "tl late_failures"] show ?thesis
    by blast
qed

section \<open>Properties of the value scorer\<close>

subsection \<open>Rounding to the nearest double\<close>

lemma pow2_pos [simp]: "0 < pow2 e"
  by (simp add: pow2_def)

lemma pow2_add: "pow2 (a + b) = pow2 a * pow2 b"
  by (simp add: pow2_def powr_add)

lemma pow2_mono: "a \<le> b \<Longrightarrow> pow2 a \<le> pow2 b"
  by (simp add: pow2_def)

lemma pow2_nat: "pow2 (int n) = 2 ^ n"
  by (simp add: pow2_def powr_realpow)

lemma pow2_of_int: "0 \<le> e \<Longrightarrow> pow2 e = of_int (2 ^ nat e)"
  using pow2_nat [of "nat e"] by simp

lemma pow2_nonneg [simp]: "0 \<le> pow2 e"
  by (simp add: pow2_def)

lemma pow2_divide: "x / pow2 a = x * pow2 (- a)"
  by (simp add: pow2_def powr_minus field_simps)

lemma pow2_split:
  "pow2 (e + 1) = pow2 53 * pow2 (e - 52)"
  "pow2 e = pow2 52 * pow2 (e - 52)"
proof -
  have "pow2 (e + 1) = pow2 (53 + (e - 52))" by (rule arg_cong [of _ _ pow2]) simp
  then show "pow2 (e + 1) = pow2 53 * pow2 (e - 52)" by (simp only: pow2_add)
  have "pow2 e = pow2 (52 + (e - 52))" by (rule arg_cong [of _ _ pow2]) simp
  then show "pow2 e = pow2 52 * pow2 (e - 52)" by (simp only: pow2_add)
qed

lemma round_even_cases: "round_even y = \<lfloor>y\<rfloor> \<or> round_even y = \<lfloor>y\<rfloor> + 1"
  by (simp add: round_even_def)

lemma round_even_of_int [simp]: "round_even (of_int n) = n"
  by (simp add: round_even_def)

lemma round_even_mono:
  assumes "a \<le> b"
  shows "round_even a \<le> round_even b"
proof (cases "\<lfloor>a\<rfloor> = \<lfloor>b\<rfloor>")
  case True
  from assms have "a - of_int \<lfloor>a\<rfloor> \<le> b - of_int \<lfloor>a\<rfloor>" by simp
  then show ?thesis
    unfolding round_even_def True [symmetric] by auto
next
  case False
  with assms have "\<lfloor>a\<rfloor> < \<lfloor>b\<rfloor>"
    using floor_mono [OF assms] by simp
  then have "\<lfloor>a\<rfloor> + 1 \<le> \<lfloor>b\<rfloor>" by simp
  moreover have "round_even a \<le> \<lfloor>a\<rfloor> + 1" using round_even_cases [of a] by auto
  moreover have "\<lfloor>b\<rfloor> \<le> round_even b" using round_even_cases [of b] by auto
  ultimately show ?thesis by simp
qed

lemma round_even_near:
  "0 \<le> f \<Longrightarrow> f < 1 / 2 \<Longrightarrow> round_even (of_int n + f) = n"
proof -
  assume f: "0 \<le> f" "f < 1 / 2"
  then have "\<lfloor>of_int n + f\<rfloor> = n" by (simp add: floor_unique)
  with f show ?thesis by (simp add: round_even_def)
qed

lemma binade_upper:
  assumes "x \<noteq> 0"
  shows "\<bar>x\<bar> < pow2 (binade x + 1)"
proof -
  from assms have pos: "0 < \<bar>x\<bar>" by simp
  have "\<bar>x\<bar> < 2 powr (of_int \<lfloor>log 2 \<bar>x\<bar>\<rfloor> + 1)"
    using floor_log_eq_powr_iff [OF pos, of 2 "\<lfloor>log 2 \<bar>x\<bar>\<rfloor>"] by simp
  also have "\<dots> \<le> pow2 (binade x + 1)"
    by (simp add: pow2_def binade_def)
  finally show ?thesis .
qed

lemma binade_lower:
  assumes "x \<noteq> 0" and "- 1022 < binade x"
  shows "pow2 (binade x) \<le> \<bar>x\<bar>"
proof -
  from assms have pos: "0 < \<bar>x\<bar>" by simp
  from assms(2) have "binade x = \<lfloor>log 2 \<bar>x\<bar>\<rfloor>" by (simp add: binade_def max_def split: if_splits)
  then show ?thesis
    using floor_log_eq_powr_iff [OF pos, of 2 "\<lfloor>log 2 \<bar>x\<bar>\<rfloor>"] by (simp add: pow2_def)
qed

lemma binade_mono:
  assumes "0 < x" and "x \<le> y"
  shows "binade x \<le> binade y"
proof -
  from assms have "log 2 \<bar>x\<bar> \<le> log 2 \<bar>y\<bar>" by simp
  then have "\<lfloor>log 2 \<bar>x\<bar>\<rfloor> \<le> \<lfloor>log 2 \<bar>y\<bar>\<rfloor>" by (rule floor_mono)
  then show ?thesis by (simp add: binade_def)
qed

lemma binade_eq:
  assumes "pow2 e \<le> x" and "x < pow2 (e + 1)" and "- 1022 \<le> e"
  shows "binade x = e"
proof -
  from assms(1) have pos: "0 < x" using pow2_pos [of e] by linarith
  from assms(1,2) have "\<lfloor>log 2 x\<rfloor> = e"
    using floor_log_eq_powr_iff [OF pos, of 2 e] by (simp add: pow2_def)
  with pos assms(3) show ?thesis by (simp add: binade_def)
qed

lemma nearest_upper:
  assumes "0 < x"
  shows "nearest x \<le> pow2 (binade x + 1)"
proof -
  let ?u = "pow2 (binade x - 52)"
  from binade_upper [of x] assms have "x < pow2 53 * ?u"
    by (simp add: pow2_split(1) [symmetric])
  then have "x / ?u < pow2 53" by (simp add: pos_divide_less_eq)
  then have "x / ?u \<le> of_int (2 ^ 53)" by (simp add: pow2_of_int)
  then have "round_even (x / ?u) \<le> round_even (of_int (2 ^ 53))" by (rule round_even_mono)
  then have "round_even (x / ?u) \<le> 2 ^ 53" by (simp only: round_even_of_int)
  then have "of_int (round_even (x / ?u)) \<le> (of_int (2 ^ 53) :: real)"
    by (simp only: of_int_le_iff)
  also have "(of_int (2 ^ 53) :: real) = pow2 53" by (simp add: pow2_of_int)
  finally have "of_int (round_even (x / ?u)) * ?u \<le> pow2 53 * ?u"
    by (intro mult_right_mono) simp_all
  then show ?thesis by (simp add: nearest_def pow2_split(1) [symmetric])
qed

lemma nearest_lower:
  assumes "0 < x" and "- 1022 < binade x"
  shows "pow2 (binade x) \<le> nearest x"
proof -
  let ?u = "pow2 (binade x - 52)"
  from binade_lower [of x] assms have "pow2 52 * ?u \<le> x"
    by (simp add: pow2_split(2) [symmetric])
  then have "pow2 52 \<le> x / ?u" by (simp add: pos_le_divide_eq)
  then have "of_int (2 ^ 52) \<le> x / ?u" by (simp add: pow2_of_int)
  then have "round_even (of_int (2 ^ 52)) \<le> round_even (x / ?u)" by (rule round_even_mono)
  then have "2 ^ 52 \<le> round_even (x / ?u)" by (simp only: round_even_of_int)
  then have "(of_int (2 ^ 52) :: real) \<le> of_int (round_even (x / ?u))"
    by (simp only: of_int_le_iff)
  moreover have "(of_int (2 ^ 52) :: real) = pow2 52" by (simp add: pow2_of_int)
  ultimately have "pow2 52 * ?u \<le> of_int (round_even (x / ?u)) * ?u"
    by (intro mult_right_mono) simp_all
  then show ?thesis by (simp add: nearest_def pow2_split(2) [symmetric])
qed

lemma nearest_nonneg: "0 < x \<Longrightarrow> 0 \<le> nearest x"
proof -
  assume "0 < x"
  then have "of_int 0 \<le> x / pow2 (binade x - 52)" by simp
  then have "round_even (of_int 0) \<le> round_even (x / pow2 (binade x - 52))"
    by (rule round_even_mono)
  then have "0 \<le> round_even (x / pow2 (binade x - 52))"
    by (simp only: round_even_of_int)
  then show ?thesis by (simp add: nearest_def)
qed

lemma nearest_mono:
  assumes "0 < x" and "x \<le> y"
  shows "nearest x \<le> nearest y"
proof (cases "binade x = binade y")
  case True
  from assms have "x / pow2 (binade y - 52) \<le> y / pow2 (binade y - 52)"
    by (intro divide_right_mono) simp_all
  from round_even_mono [OF this] show ?thesis
    by (simp add: nearest_def True)
next
  case False
  with binade_mono [OF assms] have lt: "binade x < binade y" by simp
  moreover have "- 1022 \<le> binade x" by (simp add: binade_def)
  ultimately have "- 1022 < binade y" by simp
  from assms have y: "0 < y" by simp
  have "nearest x \<le> pow2 (binade x + 1)" by (rule nearest_upper [OF assms(1)])
  also from lt have "\<dots> \<le> pow2 (binade y)" by (intro pow2_mono) simp
  also have "\<dots> \<le> nearest y" by (rule nearest_lower [OF y \<open>- 1022 < binade y\<close>])
  finally show ?thesis .
qed

lemma round_magnitude_mono:
  "0 < x \<Longrightarrow> x \<le> y \<Longrightarrow> num_le (round_magnitude x) (round_magnitude y)"
  using nearest_mono [of x y] by (auto simp: round_magnitude_def)

lemma round_magnitude_nonneg:
  "0 < x \<Longrightarrow> num_le (Finite 0) (round_magnitude x)"
  using nearest_nonneg [of x] by (auto simp: round_magnitude_def)

lemma num_le_fneg: "num_le a b \<Longrightarrow> num_le (fneg b) (fneg a)"
  by (cases a; cases b) simp_all

lemma num_le_trans: "num_le a b \<Longrightarrow> num_le b c \<Longrightarrow> num_le a c"
  by (cases a; cases b; cases c) simp_all

lemma binary64_mono:
  assumes "x \<le> y"
  shows "num_le (binary64 x) (binary64 y)"
proof -
  have neg: "num_le (binary64 z) (Finite 0)" if "z < 0" for z
    using that num_le_fneg [OF round_magnitude_nonneg [of "- z"]] by (simp add: binary64_def)
  have pos: "num_le (Finite 0) (binary64 z)" if "0 < z" for z
    using that round_magnitude_nonneg [of z] by (simp add: binary64_def)
  consider "0 < x" | "x = 0" | "x < 0" "y < 0" | "x < 0" "y = 0" | "x < 0" "0 < y" by linarith
  then show ?thesis
  proof cases
    case 1
    with assms show ?thesis by (simp add: binary64_def round_magnitude_mono)
  next
    case 2
    with assms pos [of y] show ?thesis by (cases "y = 0") (simp_all add: binary64_def)
  next
    case 3
    with assms have "num_le (round_magnitude (- y)) (round_magnitude (- x))"
      by (intro round_magnitude_mono) simp_all
    from num_le_fneg [OF this] 3 show ?thesis by (simp add: binary64_def)
  next
    case 4
    with neg [of x] show ?thesis by (simp add: binary64_def)
  next
    case 5
    from num_le_trans [OF neg [OF 5(1)] pos [OF 5(2)]] show ?thesis .
  qed
qed

text \<open>The double nearest to a number of a known binade.\<close>

lemma binary64_eval:
  assumes "pow2 e \<le> x" and "x < pow2 (e + 1)" and "- 1022 \<le> e" and "e \<le> 1022"
  shows "binary64 x = Finite (of_int (round_even (x * pow2 (52 - e))) * pow2 (e - 52))"
proof -
  from assms(1) have pos: "0 < x" using pow2_pos [of e] by linarith
  have b: "binade x = e" by (rule binade_eq [OF assms(1-3)])
  have inv: "x / pow2 (e - 52) = x * pow2 (52 - e)"
    by (simp add: pow2_divide)
  have n: "nearest x = of_int (round_even (x * pow2 (52 - e))) * pow2 (e - 52)"
    by (simp add: nearest_def b inv)
  from nearest_upper [OF pos] b have "nearest x \<le> pow2 (e + 1)" by simp
  also from assms(4) have "\<dots> \<le> pow2 1023" by (intro pow2_mono) simp
  also have "\<dots> < pow2 1024" by (simp add: pow2_def)
  finally have "\<not> pow2 1024 \<le> nearest x" by simp
  with pos n show ?thesis by (simp add: binary64_def round_magnitude_def)
qed

text \<open>The integers up to \<open>2\<^sup>5\<^sup>3\<close> are doubles.\<close>

lemma binary64_exact_int:
  assumes "\<bar>k\<bar> \<le> 2 ^ 53"
  shows "binary64 (of_int k) = Finite (of_int k)"
proof -
  have p: "binary64 (of_int n) = Finite (of_int n)" if n: "0 < n" "n \<le> 2 ^ 53" for n :: int
  proof -
    let ?x = "of_int n :: real"
    from n have pos: "0 < ?x" by simp
    have "- 1022 \<le> binade ?x" by (simp add: binade_def)
    have ge0: "0 \<le> binade ?x"
    proof -
      from n have "1 \<le> ?x" by simp
      then have "0 \<le> log 2 \<bar>?x\<bar>" by simp
      then have "0 \<le> \<lfloor>log 2 \<bar>?x\<bar>\<rfloor>" by simp
      then show ?thesis by (simp add: binade_def)
    qed
    have le53: "binade ?x \<le> 53"
    proof (rule ccontr)
      assume "\<not> binade ?x \<le> 53"
      then have "54 \<le> binade ?x" by simp
      then have "pow2 54 \<le> pow2 (binade ?x)" by (rule pow2_mono)
      also have "\<dots> \<le> \<bar>?x\<bar>" using \<open>54 \<le> binade ?x\<close> by (intro binade_lower) (use pos in simp_all)
      finally have "(2::real) ^ 54 \<le> of_int n" using pos pow2_nat [of 54] by simp
      moreover from n(2) have "?x \<le> of_int (2 ^ 53)" by (simp only: of_int_le_iff)
      ultimately show False by simp
    qed
    have "\<exists>j. ?x / pow2 (binade ?x - 52) = of_int j"
    proof (cases "binade ?x \<le> 52")
      case True
      have "?x / pow2 (binade ?x - 52) = ?x * pow2 (52 - binade ?x)"
        by (simp add: pow2_divide)
      also from True have "\<dots> = of_int (n * 2 ^ nat (52 - binade ?x))"
        by (simp add: pow2_of_int)
      finally show ?thesis by blast
    next
      case False
      with le53 have b: "binade ?x = 53" by simp
      then have "pow2 53 \<le> \<bar>?x\<bar>" using binade_lower [of ?x] pos by simp
      then have "(2::real) ^ 53 \<le> of_int n" using pos pow2_nat [of 53] by simp
      then have "(of_int (2 ^ 53) :: real) \<le> of_int n" by simp
      then have "2 ^ 53 \<le> n" by (simp only: of_int_le_iff)
      with n(2) have "n = 2 ^ 53" by simp
      then have "?x = of_int (2 ^ 52) * pow2 1"
        using pow2_nat [of 1] by simp
      moreover from b have "pow2 (binade ?x - 52) = pow2 1" by simp
      ultimately have "?x / pow2 (binade ?x - 52) = of_int (2 ^ 52)"
        by (simp only: nonzero_mult_div_cancel_right [OF less_imp_neq [OF pow2_pos, symmetric]])
      then show ?thesis by blast
    qed
    then obtain j where j: "?x / pow2 (binade ?x - 52) = of_int j" ..
    then have "nearest ?x = ?x"
      by (simp add: nearest_def) (metis j nonzero_divide_eq_eq pow2_pos less_irrefl)
    moreover have "?x < pow2 1024"
    proof -
      from n(2) have "?x \<le> of_int (2 ^ 53)" by (simp only: of_int_le_iff)
      also have "\<dots> = pow2 53" by (simp add: pow2_of_int)
      also have "\<dots> < pow2 1024" by (simp add: pow2_def)
      finally show ?thesis .
    qed
    ultimately show ?thesis using pos by (simp add: binary64_def round_magnitude_def)
  qed
  consider "k = 0" | "0 < k" | "k < 0" by linarith
  then show ?thesis
  proof cases
    case 1
    then show ?thesis by (simp add: binary64_def)
  next
    case 2
    with assms p [of k] show ?thesis by simp
  next
    case 3
    with assms p [of "- k"] have "binary64 (of_int (- k)) = Finite (of_int (- k))" by simp
    with 3 show ?thesis by (simp add: binary64_def)
  qed
qed

lemma pow2_numeral:
  "pow2 (numeral k) = 2 ^ numeral k"
  "pow2 (- numeral k) = 1 / 2 ^ numeral k"
  "pow2 0 = 1"
  "pow2 1 = 2"
  "pow2 (- 1) = 1 / 2"
proof -
  show n: "pow2 (numeral k) = 2 ^ numeral k"
    using pow2_nat [of "numeral k"] by simp
  show "pow2 (- numeral k) = 1 / 2 ^ numeral k"
    using pow2_divide [of 1 "numeral k"] n by simp
  show "pow2 0 = 1"
    using pow2_nat [of 0] by simp
  show o: "pow2 1 = 2"
    using pow2_nat [of 1] by simp
  show "pow2 (- 1) = 1 / 2"
    using pow2_divide [of 1 1] o by simp
qed

lemma round_even_numeral: "round_even (numeral n) = numeral n"
  using round_even_of_int [of "numeral n"] by simp

lemma binary64_numeral:
  "binary64 0 = Finite 0"
  "binary64 1 = Finite 1"
  "numeral n \<le> (2::int) ^ 53 \<Longrightarrow> binary64 (numeral n) = Finite (numeral n)"
  using binary64_exact_int [of 0] binary64_exact_int [of 1] binary64_exact_int [of "numeral n"]
  by simp_all

lemma binary64_not_NaN: "binary64 x \<noteq> NaN"
  by (simp add: binary64_def round_magnitude_def)

lemma real_log2_not_NaN:
  "(\<And>x. rounding x \<noteq> NaN) \<Longrightarrow> num_le (Finite 1) a \<Longrightarrow> real_log2 rounding a \<noteq> NaN"
  by (cases a) (simp_all add: real_log2_def)

text \<open>Binary64 arithmetic has the properties that the bounds of the scorer rest on.\<close>

lemma ieee_binary64_platform: "ieee binary64_platform"
  by (simp add: ieee_def binary64_platform_def binary64_not_NaN binary64_mono binary64_exact_int
      real_log2_not_NaN)

lemma ieee_exact_platform: "ieee exact_platform"
  by (simp add: ieee_def exact_platform_def real_log2_not_NaN)

subsection \<open>Bounds on rounded numbers\<close>

lemma rnd_not_NaN: "ieee m \<Longrightarrow> rnd m x \<noteq> NaN"
  by (simp add: ieee_def)

lemma rnd_mono: "ieee m \<Longrightarrow> x \<le> y \<Longrightarrow> num_le (rnd m x) (rnd m y)"
  by (simp add: ieee_def)

lemma rnd_exact: "ieee m \<Longrightarrow> \<bar>k\<bar> \<le> 2 ^ 53 \<Longrightarrow> rnd m (of_int k) = Finite (of_int k)"
  by (simp add: ieee_def)

lemma rnd_at_most:
  assumes "ieee m" and "x \<le> of_int hi" and "\<bar>hi\<bar> \<le> 2 ^ 53"
  shows "at_most (of_int hi) (rnd m x)"
  using rnd_mono [OF assms(1,2)] rnd_exact [OF assms(1,3)] by (simp add: at_most_def)

lemma rnd_at_least:
  assumes "ieee m" and "of_int lo \<le> x" and "\<bar>lo\<bar> \<le> 2 ^ 53"
  shows "num_le (Finite (of_int lo)) (rnd m x)"
  using rnd_mono [OF assms(1,2)] rnd_exact [OF assms(1,3)] by simp

lemma rnd_finite_in:
  assumes "ieee m" and "of_int lo \<le> x" and "x \<le> of_int hi"
    and "\<bar>lo\<bar> \<le> 2 ^ 53" and "\<bar>hi\<bar> \<le> 2 ^ 53"
  shows "finite_in (of_int lo) (of_int hi) (rnd m x)"
  using rnd_at_least [OF assms(1,2,4)] rnd_at_most [OF assms(1,3,5)]
  by (cases "rnd m x") (simp_all add: finite_in_def at_most_def)

lemma finite_in_at_most: "finite_in lo hi a \<Longrightarrow> at_most hi a"
  by (cases a) (simp_all add: finite_in_def at_most_def)

lemma at_most_not_NaN: "at_most hi a \<Longrightarrow> a \<noteq> NaN"
  by (cases a) (simp_all add: at_most_def)

lemma fmin_at_most: "a \<noteq> NaN \<Longrightarrow> at_most b (fmin a (Finite b))"
  by (cases a) (simp_all add: fmin_def at_most_def)

lemma fmin_finite_in:
  "num_le (Finite lo) a \<Longrightarrow> lo \<le> hi \<Longrightarrow> finite_in lo hi (fmin a (Finite hi))"
  by (cases a) (auto simp: fmin_def finite_in_def)

lemma fmax_finite_in:
  "at_most hi a \<Longrightarrow> lo \<le> hi \<Longrightarrow> finite_in lo hi (fmax a (Finite lo))"
  by (cases a) (auto simp: fmax_def finite_in_def at_most_def)

lemma fadd_finite_in:
  assumes "ieee m" and "finite_in (of_int a) (of_int b) u" and "finite_in (of_int c) (of_int d) v"
    and "\<bar>a + c\<bar> \<le> 2 ^ 53" and "\<bar>b + d\<bar> \<le> 2 ^ 53"
  shows "finite_in (of_int (a + c)) (of_int (b + d)) (fadd m u v)"
proof -
  from assms(2,3) obtain x y where u: "u = Finite x" and v: "v = Finite y"
    and x: "of_int a \<le> x" "x \<le> of_int b" and y: "of_int c \<le> y" "y \<le> of_int d"
    by (cases u; cases v) (auto simp: finite_in_def)
  from x y have "of_int (a + c) \<le> x + y" "x + y \<le> of_int (b + d)" by simp_all
  from rnd_finite_in [OF assms(1) this assms(4,5)] show ?thesis
    by (simp add: u v)
qed

lemma fadd_at_most:
  assumes "ieee m" and "at_most (of_int b) u" and "at_most (of_int d) v" and "\<bar>b + d\<bar> \<le> 2 ^ 53"
  shows "at_most (of_int (b + d)) (fadd m u v)"
proof (cases u)
  case (Finite x)
  show ?thesis
  proof (cases v)
    case (Finite y)
    from assms(2,3) \<open>u = Finite x\<close> Finite have "x + y \<le> of_int (b + d)"
      by (simp add: at_most_def)
    from rnd_at_most [OF assms(1) this assms(4)] \<open>u = Finite x\<close> Finite show ?thesis by simp
  qed (use assms(3) \<open>u = Finite x\<close> in \<open>simp_all add: at_most_def\<close>)
next
  case NegInf
  with assms(3) show ?thesis by (cases v) (simp_all add: at_most_def)
qed (use assms(2) in \<open>simp_all add: at_most_def\<close>)

text \<open>A sub-score of at most 10, times a weight between 1 and 5, is at most 50.\<close>

lemma fmul_weight_at_most:
  assumes "ieee m" and "at_most 10 s" and "1 \<le> w" and "w \<le> 5"
  shows "at_most 50 (fmul m s (Finite w))"
proof (cases s)
  case (Finite x)
  with assms(2) have x: "x \<le> 10" by (simp add: at_most_def)
  have "x * w \<le> 50"
  proof (cases "0 \<le> x")
    case True
    with x assms(3,4) have "x * w \<le> 10 * 5" by (intro mult_mono) simp_all
    then show ?thesis by simp
  next
    case False
    with assms(3) have "x * w \<le> 0" by (simp add: mult_le_0_iff)
    then show ?thesis by simp
  qed
  then have "x * w \<le> of_int 50" by simp
  from rnd_at_most [OF assms(1) this] Finite show ?thesis by simp
next
  case NegInf
  with assms(3) show ?thesis by (simp add: at_most_def)
qed (use assms(2) in \<open>simp_all add: at_most_def\<close>)

text \<open>The clamp sends every number but \<^verbatim>\<open>NaN\<close> to an integer from 0 to 100.\<close>

lemma round_0_100: "0 \<le> (y::real) \<Longrightarrow> y \<le> 100 \<Longrightarrow> 0 \<le> round y \<and> round y \<le> 100"
  using round_mono [of 0 y] round_mono [of y 100] by simp

lemma clamp_round_range:
  assumes "a \<noteq> NaN"
  shows "\<exists>n::int. fround (fmin (fmax a (Finite 0)) (Finite 100)) = Finite (of_int n) \<and> 0 \<le> n \<and> n \<le> 100"
proof (cases a)
  case (Finite x)
  have "fmin (fmax a (Finite 0)) (Finite 100) = Finite (min (max x 0) 100)"
    by (auto simp: Finite fmin_def fmax_def min_def max_def)
  moreover have "0 \<le> round (min (max x 0) 100) \<and> round (min (max x 0) 100) \<le> 100"
    by (rule round_0_100) simp_all
  ultimately show ?thesis by auto
next
  case NegInf
  then have "fround (fmin (fmax a (Finite 0)) (Finite 100)) = Finite (of_int 0)"
    by (simp add: fmin_def fmax_def)
  then show ?thesis by (intro exI [of _ 0]) simp
next
  case PosInf
  then have "fround (fmin (fmax a (Finite 0)) (Finite 100)) = Finite (of_int 100)"
    by (simp add: fmin_def fmax_def)
  then show ?thesis by (intro exI [of _ 100]) simp
qed (use assms in simp)

text \<open>Rounding and clamping commute: the bounds 0 and 100 are integers.\<close>

lemma round_clamp_commute:
  "round (min (max (x::real) 0) 100) = min (max (round x) 0) 100"
proof -
  have a: "x \<le> 0 \<Longrightarrow> round x \<le> 0"
    using round_mono [of x 0] by simp
  have b: "0 \<le> x \<Longrightarrow> 0 \<le> round x"
    using round_mono [of 0 x] by simp
  have c: "x \<le> 100 \<Longrightarrow> round x \<le> 100"
    using round_mono [of x 100] by simp
  have d: "100 \<le> x \<Longrightarrow> 100 \<le> round x"
    using round_mono [of 100 x] by simp
  show ?thesis
    using a b c d by (cases "x \<le> 0"; cases "x \<le> 100") (auto simp: min_def max_def)
qed

lemma fround_clamp_commute:
  "fround (fmin (fmax a (Finite 0)) (Finite 100)) = fmin (fmax (fround a) (Finite 0)) (Finite 100)"
proof (cases a)
  case (Finite x)
  have l: "fround (fmin (fmax a (Finite 0)) (Finite 100)) = Finite (of_int (round (min (max x 0) 100)))"
    by (auto simp: Finite fmin_def fmax_def min_def max_def)
  have "fmin (fmax (fround a) (Finite 0)) (Finite 100)
      = Finite (min (max (of_int (round x)) 0) 100)"
    by (auto simp: Finite fmin_def fmax_def min_def max_def)
  also have "min (max (of_int (round x)) 0) 100 = (of_int (min (max (round x) 0) 100) :: real)"
    by (simp add: min_def max_def)
  finally show ?thesis
    by (simp add: l round_clamp_commute)
qed (simp_all add: fmin_def fmax_def)

subsection \<open>The four sub-scores\<close>

lemma scoreFrequency_at_most:
  assumes "ieee m"
  shows "at_most 10 (scoreFrequency m capability)"
proof -
  have "of_int 1 \<le> real (trigger_count capability) + 1" by simp
  from rnd_at_least [OF assms this] have "num_le (Finite 1) (rnd m (real (trigger_count capability) + 1))"
    by simp
  with assms have "math_log2 m (rnd m (real (trigger_count capability) + 1)) \<noteq> NaN"
    by (simp add: ieee_def)
  then show ?thesis
    by (simp add: scoreFrequency_def Let_def fmin_at_most)
qed

lemma scoreFailReduction_finite_in:
  assumes "ieee m"
  shows "finite_in 0 10 (scoreFailReduction m capability capsules)"
proof -
  let ?related = "filter (\<lambda>c. capsule_gene_id c \<in> set (linked_genes capability)) capsules"
  show ?thesis
  proof (cases "capsules = [] \<or> ?related = []")
    case True
    then show ?thesis
      by (auto simp: scoreFailReduction_def Let_def finite_in_def)
  next
    case False
    let ?p = "real (length (filter capsule_passed ?related))"
    let ?n = "real (length ?related)"
    from False have n: "0 < ?n" by simp
    have "?p \<le> ?n"
      using length_filter_le [of capsule_passed ?related] by (simp only: of_nat_le_iff)
    with n have q: "of_int 0 \<le> ?p / ?n" "?p / ?n \<le> of_int 1" by simp_all
    from rnd_finite_in [OF assms q] obtain v where v: "rnd m (?p / ?n) = Finite v" "0 \<le> v" "v \<le> 1"
      by (cases "rnd m (?p / ?n)") (auto simp: finite_in_def)
    then have "of_int 0 \<le> v * 10" "v * 10 \<le> of_int 10" by simp_all
    from rnd_finite_in [OF assms this] have "finite_in 0 10 (rnd m (v * 10))" by simp
    with False n v(1) show ?thesis
      by (simp add: scoreFailReduction_def Let_def)
  qed
qed

lemma scoreUserBurden_finite_in:
  assumes "ieee m"
  shows "finite_in 0 10 (scoreUserBurden m capability)"
proof -
  let ?s = "real (length (linked_skills capability))"
  let ?p = "real (length (preconditions capability))"
  have "of_int 0 \<le> ?s * 2" by simp
  from rnd_at_least [OF assms this] have "num_le (Finite 0) (rnd m (?s * 2))" by simp
  then have a: "finite_in (of_int 0) (of_int 6) (fmin (fmul m (Finite ?s) (Finite 2)) (Finite 6))"
    using fmin_finite_in [of 0 "rnd m (?s * 2)" 6] by simp
  have "4 - ?p \<le> of_int 4" by simp
  from rnd_at_most [OF assms this] have "at_most 4 (rnd m (4 - ?p))" by simp
  then have b: "finite_in (of_int 0) (of_int 4) (fmax (fsub m (Finite 4) (Finite ?p)) (Finite 0))"
    using fmax_finite_in [of 4 "rnd m (4 - ?p)" 0] by (simp add: fsub_def)
  have z: "finite_in (of_int 0) (of_int 0) (Finite 0)" by (simp add: finite_in_def)
  from fadd_finite_in [OF assms z a]
  have c: "finite_in (of_int 0) (of_int 6) (fadd m (Finite 0) (fmin (fmul m (Finite ?s) (Finite 2)) (Finite 6)))"
    by simp
  from fadd_finite_in [OF assms c b]
  have "finite_in 0 10 (fadd m (fadd m (Finite 0) (fmin (fmul m (Finite ?s) (Finite 2)) (Finite 6)))
      (fmax (fsub m (Finite 4) (Finite ?p)) (Finite 0)))"
    by simp
  then obtain v where v: "fadd m (fadd m (Finite 0) (fmin (fmul m (Finite ?s) (Finite 2)) (Finite 6)))
      (fmax (fsub m (Finite 4) (Finite ?p)) (Finite 0)) = Finite v" "0 \<le> v" "v \<le> 10"
    by (auto simp: finite_in_def split: jsnum.splits)
  have "scoreUserBurden m capability
      = fmin (fadd m (fadd m (Finite 0) (fmin (fmul m (Finite ?s) (Finite 2)) (Finite 6)))
                (fmax (fsub m (Finite 4) (Finite ?p)) (Finite 0))) (Finite 10)"
    by (simp only: scoreUserBurden_def Let_def)
  also have "\<dots> = fmin (Finite v) (Finite 10)"
    by (simp only: v(1))
  finally show ?thesis
    using v(2,3) by (simp add: fmin_def finite_in_def)
qed

text \<open>The sum of the file limits is never \<^verbatim>\<open>NaN\<close>, and a gene that is found is counted.\<close>

lemma fadd_finite_not_NaN: "ieee m \<Longrightarrow> a \<noteq> NaN \<Longrightarrow> fadd m a (Finite x) \<noteq> NaN"
  by (cases a) (simp_all add: rnd_not_NaN)

lemma selfCost_totals_not_NaN:
  assumes "ieee m"
  shows "fsum \<noteq> NaN \<Longrightarrow> selfCost_totals m r gm ids (steps, fsum, count) = (steps1, fsum1, count1)
     \<Longrightarrow> fsum1 \<noteq> NaN"
proof (induction ids arbitrary: steps fsum count)
  case Nil
  then show ?case by simp
next
  case (Cons geneId ids)
  show ?case
  proof (cases "geneMap_lookup r gm geneId")
    case None
    with Cons.prems(2) have "selfCost_totals m r gm ids (steps, fsum, count) = (steps1, fsum1, count1)"
      by simp
    from Cons.IH [OF Cons.prems(1) this] show ?thesis .
  next
    case (Some v)
    show ?thesis
    proof (cases v)
      case (GeneValue g)
      with Some Cons.prems(2) have "selfCost_totals m r gm ids
          (steps + length (strategy g), fadd m fsum (Finite (of_int (max_files_or_12 g))), count + 1)
          = (steps1, fsum1, count1)"
        by simp
      from Cons.IH [OF fadd_finite_not_NaN [OF assms Cons.prems(1)] this] show ?thesis .
    next
      case OtherValue
      with Some Cons.prems(2) have "selfCost_totals m r gm ids
          (steps, fadd m fsum (Finite 12), count + 1) = (steps1, fsum1, count1)"
        by simp
      from Cons.IH [OF fadd_finite_not_NaN [OF assms Cons.prems(1)] this] show ?thesis .
    qed
  qed
qed

lemma fdiv_positive_not_NaN: "ieee m \<Longrightarrow> a \<noteq> NaN \<Longrightarrow> 0 < y \<Longrightarrow> fdiv m a (Finite y) \<noteq> NaN"
  by (cases a) (simp_all add: rnd_not_NaN)

lemma fsub_finite_not_NaN: "ieee m \<Longrightarrow> a \<noteq> NaN \<Longrightarrow> fsub m (Finite x) a \<noteq> NaN"
  by (cases a) (simp_all add: fsub_def rnd_not_NaN)

lemma fmax_0_at_least: "a \<noteq> NaN \<Longrightarrow> num_le (Finite 0) (fmax a (Finite 0))"
  by (cases a) (auto simp: fmax_def)

lemma fadd_nonneg_not_NaN:
  "ieee m \<Longrightarrow> num_le (Finite 0) a \<Longrightarrow> num_le (Finite 0) b \<Longrightarrow> fadd m a b \<noteq> NaN"
  by (cases a; cases b) (simp_all add: rnd_not_NaN)

lemma scoreSelfCost_at_most:
  assumes "ieee m" and "scoreSelfCost m r loaded capability = Inr sc"
  shows "at_most 10 sc"
proof (cases "linked_genes capability = []")
  case True
  with assms(2) show ?thesis by (auto simp: scoreSelfCost_def at_most_def)
next
  case False
  with assms(2) obtain genes where loaded: "loaded = Inr genes"
    by (cases loaded) (auto simp: scoreSelfCost_def)
  obtain steps fsum count where
    t: "selfCost_totals m r (geneMap genes) (linked_genes capability) (0, Finite 0, 0) = (steps, fsum, count)"
    by (cases "selfCost_totals m r (geneMap genes) (linked_genes capability) (0, Finite 0, 0)") auto
  show ?thesis
  proof (cases "count = 0")
    case True
    with assms(2) False loaded t show ?thesis by (auto simp: scoreSelfCost_def at_most_def)
  next
    case nz: False
    from selfCost_totals_not_NaN [OF assms(1) _ t] have tot: "fsum \<noteq> NaN" by simp
    let ?avgSteps = "fdiv m (Finite (real steps)) (Finite (real count))"
    let ?avgMaxFiles = "fdiv m fsum (Finite (real count))"
    let ?stepScore = "fmax (fsub m (Finite 10) ?avgSteps) (Finite 0)"
    let ?fileScore = "fmax (fsub m (Finite 10) (fdiv m ?avgMaxFiles (Finite 2))) (Finite 0)"
    from nz have c: "0 < real count" by simp
    have "?avgSteps \<noteq> NaN"
      using fdiv_positive_not_NaN [OF assms(1) _ c, of "Finite (real steps)"] by simp
    then have s: "num_le (Finite 0) ?stepScore"
      by (intro fmax_0_at_least fsub_finite_not_NaN [OF assms(1)])
    have "?avgMaxFiles \<noteq> NaN"
      by (rule fdiv_positive_not_NaN [OF assms(1) tot c])
    from fdiv_positive_not_NaN [OF assms(1) this, of 2]
    have "fdiv m ?avgMaxFiles (Finite 2) \<noteq> NaN"
      by simp
    then have f: "num_le (Finite 0) ?fileScore"
      by (intro fmax_0_at_least fsub_finite_not_NaN [OF assms(1)])
    from fadd_nonneg_not_NaN [OF assms(1) s f] have "fadd m ?stepScore ?fileScore \<noteq> NaN" .
    from fdiv_positive_not_NaN [OF assms(1) this, of 2]
    have "fdiv m (fadd m ?stepScore ?fileScore) (Finite 2) \<noteq> NaN"
      by simp
    then have "at_most 10 (fmin (fdiv m (fadd m ?stepScore ?fileScore) (Finite 2)) (Finite 10))"
      by (rule fmin_at_most)
    moreover from assms(2) False loaded t nz
    have "sc = fmin (fdiv m (fadd m ?stepScore ?fileScore) (Finite 2)) (Finite 10)"
      by (simp add: scoreSelfCost_def Let_def)
    ultimately show ?thesis by simp
  qed
qed

lemma scoreSelfCost_returns:
  "linked_genes capability = [] \<or> loaded = Inr genes \<Longrightarrow> \<exists>sc. scoreSelfCost m r loaded capability = Inr sc"
  by (auto simp: scoreSelfCost_def Let_def split: prod.splits)

lemma scoreSelfCost_throws:
  "linked_genes capability \<noteq> [] \<Longrightarrow> scoreSelfCost m r (Inl e) capability = Inl e"
  by (simp add: scoreSelfCost_def)

subsection \<open>The score\<close>

text \<open>The code computes the score of the specification: it clamps before it rounds.\<close>

lemma computeVScore_weighted_score:
  "scoreSelfCost m r loaded capability = Inr sc \<Longrightarrow>
     computeVScore m r loaded capability ctx weights
       = Inr (weighted_score m (weights_or_default weights) (scoreFrequency m capability)
                (scoreFailReduction m capability (context_capsules ctx))
                (scoreUserBurden m capability) sc)"
  by (simp add: computeVScore_def weighted_score_def Let_def fround_clamp_commute)

lemma weighted_score_range:
  assumes m: "ieee m" and w: "weights_in_range w"
    and f: "at_most 10 f" and fr: "at_most 10 fr" and ub: "at_most 10 ub" and sc: "at_most 10 sc"
  shows "\<exists>n::int. weighted_score m w f fr ub sc = Finite (of_int n) \<and> 0 \<le> n \<and> n \<le> 100"
proof -
  let ?raw = "fadd m (fadd m (fadd m (fmul m f (Finite (frequency w))) (fmul m fr (Finite (failReduce w))))
                (fmul m ub (Finite (userBurden w)))) (fmul m sc (Finite (selfCost w)))"
  let ?tw = "fadd m (fadd m (fadd m (Finite (frequency w)) (Finite (failReduce w)))
                (Finite (userBurden w))) (Finite (selfCost w))"
  let ?max = "fmul m (Finite 10) ?tw"
  from w have wr: "1 \<le> frequency w" "frequency w \<le> 5" "1 \<le> failReduce w" "failReduce w \<le> 5"
    "1 \<le> userBurden w" "userBurden w \<le> 5" "1 \<le> selfCost w" "selfCost w \<le> 5"
    by (simp_all add: weights_in_range_def)
  have p1: "at_most (of_int 50) (fmul m f (Finite (frequency w)))"
    using fmul_weight_at_most [OF m f wr(1,2)] by simp
  have p2: "at_most (of_int 50) (fmul m fr (Finite (failReduce w)))"
    using fmul_weight_at_most [OF m fr wr(3,4)] by simp
  have p3: "at_most (of_int 50) (fmul m ub (Finite (userBurden w)))"
    using fmul_weight_at_most [OF m ub wr(5,6)] by simp
  have p4: "at_most (of_int 50) (fmul m sc (Finite (selfCost w)))"
    using fmul_weight_at_most [OF m sc wr(7,8)] by simp
  from fadd_at_most [OF m p1 p2]
  have s2: "at_most (of_int 100) (fadd m (fmul m f (Finite (frequency w))) (fmul m fr (Finite (failReduce w))))"
    by simp
  from fadd_at_most [OF m s2 p3]
  have s3: "at_most (of_int 150) (fadd m (fadd m (fmul m f (Finite (frequency w)))
      (fmul m fr (Finite (failReduce w)))) (fmul m ub (Finite (userBurden w))))"
    by simp
  from fadd_at_most [OF m s3 p4] have raw: "at_most 200 ?raw" by simp
  have w1: "finite_in (of_int 1) (of_int 5) (Finite (frequency w))"
    and w2: "finite_in (of_int 1) (of_int 5) (Finite (failReduce w))"
    and w3: "finite_in (of_int 1) (of_int 5) (Finite (userBurden w))"
    and w4: "finite_in (of_int 1) (of_int 5) (Finite (selfCost w))"
    using wr by (simp_all add: finite_in_def)
  from fadd_finite_in [OF m w1 w2]
  have t2: "finite_in (of_int 2) (of_int 10) (fadd m (Finite (frequency w)) (Finite (failReduce w)))"
    by simp
  from fadd_finite_in [OF m t2 w3]
  have t3: "finite_in (of_int 3) (of_int 15)
      (fadd m (fadd m (Finite (frequency w)) (Finite (failReduce w))) (Finite (userBurden w)))"
    by simp
  from fadd_finite_in [OF m t3 w4] have "finite_in 4 20 ?tw" by simp
  then obtain t where t: "?tw = Finite t" "4 \<le> t" "t \<le> 20"
    by (cases ?tw) (auto simp: finite_in_def)
  then have "of_int 40 \<le> 10 * t" "10 * t \<le> of_int 200" by simp_all
  from rnd_finite_in [OF m this] obtain mx where mx: "rnd m (10 * t) = Finite mx" "40 \<le> mx"
    by (cases "rnd m (10 * t)") (auto simp: finite_in_def)
  with t(1) have max: "?max = Finite mx" by simp
  from mx(2) have pos: "0 < mx" by simp
  from raw have "?raw \<noteq> NaN" by (rule at_most_not_NaN)
  then have q: "fdiv m ?raw (Finite mx) \<noteq> NaN"
    using pos by (rule fdiv_positive_not_NaN [OF m])
  have "fmul m (fdiv m ?raw (Finite mx)) (Finite 100) \<noteq> NaN"
    using q by (cases "fdiv m ?raw (Finite mx)") (simp_all add: rnd_not_NaN [OF m])
  then have "fmul m (fdiv m ?raw ?max) (Finite 100) \<noteq> NaN"
    by (simp only: max not_False_eq_True)
  from clamp_round_range [OF this]
  show ?thesis
    by (simp add: weighted_score_def Let_def fround_clamp_commute)
qed

text \<open>
  Claim C6, as stated, fails for a capability with a linked gene when the gene store is
  unparsable: \<^verbatim>\<open>loadGenes()\<close> throws the parser's error, and computeVScore returns no number
  but throws that error.
\<close>

theorem computeVScore_unparsable_store_counterexample:
  "linked_genes (test_capability\<lparr>linked_genes := [js ''g1'']\<rparr>) = [js ''g1'']
   \<and> loadGenes truncated_files = Inl SyntaxError
   \<and> computeVScore binary64_platform pristine (Inl SyntaxError)
       (test_capability\<lparr>linked_genes := [js ''g1'']\<rparr>)
       (Some \<lparr>ctx_capsules = [], ctx_events = []\<rparr>) None = Inl SyntaxError"
proof -
  have "unparsable truncated_files (js ''genes.json'')"
    by (simp add: unparsable_def truncated_files_def trim_truncated JSON_parse_truncated)
      (simp add: js_def)
  then have "loadGenes truncated_files = Inl SyntaxError"
    by (simp add: loadGenes_def readJSON_unparsable)
  then show ?thesis
    by (simp add: computeVScore_def scoreSelfCost_def Let_def)
qed

text \<open>
  With weights that sum to 0 the quotient is 0/0, and the number returned is \<^verbatim>\<open>NaN\<close>.
\<close>

lemma computeVScore_zero_weights:
  "computeVScore binary64_platform pristine (Inr []) (test_capability\<lparr>trigger_count := 0\<rparr>) None
     (Some \<lparr>frequency = 0, failReduce = 0, userBurden = 0, selfCost = 0\<rparr>) = Inr NaN"
  by (simp add: computeVScore_def scoreSelfCost_def scoreFrequency_def scoreFailReduction_def
      scoreUserBurden_def weights_or_default_def context_capsules_def test_capability_def
      binary64_platform_def real_log2_def binary64_numeral fmin_def fmax_def fsub_def Let_def)

text \<open>
  The rounding of doubles decides the score at a half point: for a weighted sum of 28.5 of
  100 the quotient 28.5/100 is rounded to the double 5134103575202365 / \<open>2\<^sup>5\<^sup>4\<close>, below 0.285;
  its product with 100, which is 128352589380059125 / \<open>2\<^sup>5\<^sup>2\<close>, is rounded to a double below
  28.5; and the score is 28. Without rounding error it would be 29.
\<close>

lemma binary64_quotient: "binary64 (57 / 200) = Finite (5134103575202365 / 2 ^ 54)"
proof -
  have "57 / 200 * pow2 (52 - (- 2)) = of_int 5134103575202365 + 11 / 25"
    by (simp add: pow2_numeral)
  then have "round_even (57 / 200 * pow2 (52 - (- 2))) = 5134103575202365"
    by (simp only: round_even_near [of "11 / 25"])
  with binary64_eval [of "- 2" "57 / 200"] show ?thesis
    by (simp add: pow2_numeral)
qed

lemma binary64_product:
  "binary64 (128352589380059125 / 4503599627370496) = Finite (8022036836253695 / 2 ^ 48)"
proof -
  have "128352589380059125 / 4503599627370496 * pow2 (52 - 4) = of_int 8022036836253695 + 5 / 16"
    by (simp add: pow2_numeral)
  then have "round_even (128352589380059125 / 4503599627370496 * pow2 (52 - 4)) = 8022036836253695"
    by (simp only: round_even_near [of "5 / 16"])
  with binary64_eval [of 4 "128352589380059125 / 4503599627370496"] show ?thesis
    by (simp add: pow2_numeral)
qed

lemma binary64_halves:
  "binary64 (1 / 4) = Finite (1 / 4)"
  "binary64 (5 / 2) = Finite (5 / 2)"
  "binary64 (15 / 2) = Finite (15 / 2)"
  "binary64 (21 / 2) = Finite (21 / 2)"
  "binary64 (37 / 2) = Finite (37 / 2)"
  "binary64 (57 / 2) = Finite (57 / 2)"
  using binary64_eval [of "- 2" "1 / 4"] binary64_eval [of 1 "5 / 2"] binary64_eval [of 2 "15 / 2"]
    binary64_eval [of 3 "21 / 2"] binary64_eval [of 4 "37 / 2"] binary64_eval [of 4 "57 / 2"]
  by (simp_all add: pow2_numeral round_even_numeral)

lemma half_point_sub_scores:
  "scoreFrequency binary64_platform half_point_capability = Finite 1"
  "scoreFailReduction binary64_platform half_point_capability (ctx_capsules half_point_context) = Finite (5 / 2)"
  "scoreUserBurden binary64_platform half_point_capability = Finite 4"
  "scoreSelfCost binary64_platform pristine (Inr []) half_point_capability = Inr (Finite 5)"
proof -
  show "scoreFrequency binary64_platform half_point_capability = Finite 1"
    by (simp add: scoreFrequency_def half_point_capability_def binary64_platform_def real_log2_def
        binary64_numeral fmin_def Let_def)
  show "scoreFailReduction binary64_platform half_point_capability (ctx_capsules half_point_context)
      = Finite (5 / 2)"
    by (simp add: scoreFailReduction_def half_point_capability_def half_point_context_def
        failed_capsule_def capsule_passed_def binary64_platform_def binary64_halves Let_def)
  show "scoreUserBurden binary64_platform half_point_capability = Finite 4"
    by (simp add: scoreUserBurden_def half_point_capability_def binary64_platform_def
        binary64_numeral fmin_def fmax_def fsub_def Let_def)
  show "scoreSelfCost binary64_platform pristine (Inr []) half_point_capability = Inr (Finite 5)"
    by (simp add: scoreSelfCost_def half_point_capability_def geneMap_def geneMap_lookup_def
        inherited_property_def OBJECT_PROTOTYPE_FUNCTIONS_def pristine_def js_def)
qed

lemma computeVScore_half_point:
  "computeVScore binary64_platform pristine (Inr []) half_point_capability (Some half_point_context) None
     = Inr (Finite 28)
   \<and> computeVScore exact_platform pristine (Inr []) half_point_capability (Some half_point_context) None
     = Inr (Finite 29)"
proof -
  have r28: "round (8022036836253695 / 281474976710656 :: real) = 28"
    by (simp add: round_def floor_unique)
  have r29: "round (57 / 2 :: real) = 29"
    by (simp add: round_def floor_unique)
  have b: "computeVScore binary64_platform pristine (Inr []) half_point_capability
      (Some half_point_context) None = Inr (Finite 28)"
    by (simp add: computeVScore_def half_point_sub_scores weights_or_default_def context_capsules_def
        Let_def)
      (simp add: binary64_platform_def binary64_numeral binary64_halves binary64_quotient
        binary64_product fmin_def fmax_def r28)
  have e: "computeVScore exact_platform pristine (Inr []) half_point_capability
      (Some half_point_context) None = Inr (Finite 29)"
    by (simp add: computeVScore_def scoreSelfCost_def scoreFrequency_def scoreFailReduction_def
        scoreUserBurden_def weights_or_default_def context_capsules_def half_point_capability_def
        half_point_context_def failed_capsule_def capsule_passed_def geneMap_def geneMap_lookup_def
        inherited_property_def OBJECT_PROTOTYPE_FUNCTIONS_def pristine_def
        exact_platform_def real_log2_def fmin_def fmax_def fsub_def Let_def r29)
  from b e show ?thesis by simp
qed

text \<open>
  Claim C6, amended: on a platform with IEEE 754 arithmetic, for every capability node and
  context, with the default weights or weights that each lie in [1, 5]: when the node has no
  linked genes or loadGenes() returns the stored genes, computeVScore returns an integer in
  [0,100], the score of the specification (the weighted sum of the four sub-scores divided
  by 10 times the weight sum, scaled to 0-100, rounded and clamped, each operation rounded
  to a double); when the node has linked genes and loadGenes() throws, computeVScore throws
  that error; and isWorthEvolving(39) is false while isWorthEvolving(40) is true.
\<close>

theorem computeVScore_integer_in_range_or_throws:
  "(ieee m \<and> weights_in_range (weights_or_default weights)
      \<and> (linked_genes capability = [] \<or> (\<exists>genes. loaded = Inr genes))
     \<longrightarrow> (\<exists>sc n. scoreSelfCost m r loaded capability = Inr sc
            \<and> computeVScore m r loaded capability ctx weights
                = Inr (weighted_score m (weights_or_default weights) (scoreFrequency m capability)
                         (scoreFailReduction m capability (context_capsules ctx))
                         (scoreUserBurden m capability) sc)
            \<and> computeVScore m r loaded capability ctx weights = Inr (Finite (of_int n))
            \<and> 0 \<le> n \<and> n \<le> 100))
   \<and> (linked_genes capability \<noteq> [] \<and> loaded = Inl e
        \<longrightarrow> computeVScore m r loaded capability ctx weights = Inl e)
   \<and> \<not> isWorthEvolving (Finite 39) \<and> isWorthEvolving (Finite 40)"
proof -
  have ok: "\<exists>sc n. scoreSelfCost m r loaded capability = Inr sc
      \<and> computeVScore m r loaded capability ctx weights
          = Inr (weighted_score m (weights_or_default weights) (scoreFrequency m capability)
                   (scoreFailReduction m capability (context_capsules ctx))
                   (scoreUserBurden m capability) sc)
      \<and> computeVScore m r loaded capability ctx weights = Inr (Finite (of_int n))
      \<and> 0 \<le> n \<and> n \<le> 100"
    if h: "ieee m \<and> weights_in_range (weights_or_default weights)
      \<and> (linked_genes capability = [] \<or> (\<exists>genes. loaded = Inr genes))"
  proof -
    from h have m: "ieee m" and w: "weights_in_range (weights_or_default weights)" by simp_all
    from h obtain sc where sc: "scoreSelfCost m r loaded capability = Inr sc"
      using scoreSelfCost_returns by blast
    note eq = computeVScore_weighted_score [OF sc, of ctx weights]
    from weighted_score_range [OF m w scoreFrequency_at_most [OF m]
        finite_in_at_most [OF scoreFailReduction_finite_in [OF m]]
        finite_in_at_most [OF scoreUserBurden_finite_in [OF m]]
        scoreSelfCost_at_most [OF m sc]]
    obtain n :: int where "weighted_score m (weights_or_default weights) (scoreFrequency m capability)
          (scoreFailReduction m capability (context_capsules ctx))
          (scoreUserBurden m capability) sc = Finite (of_int n)" "0 \<le> n" "n \<le> 100"
      by blast
    with sc eq show ?thesis by auto
  qed
  have throws: "computeVScore m r loaded capability ctx weights = Inl e"
    if "linked_genes capability \<noteq> [] \<and> loaded = Inl e"
    using that by (simp add: computeVScore_def scoreSelfCost_def Let_def)
  have "\<not> isWorthEvolving (Finite 39) \<and> isWorthEvolving (Finite 40)"
    by (simp add: isWorthEvolving_def EVOLUTION_THRESHOLD_def)
  with ok throws show ?thesis by blast
qed

theorem computeVScore_integer_in_range_or_throws_witness:
  "ieee binary64_platform
   \<and> weights_in_range (weights_or_default None)
   \<and> linked_genes test_capability = []
   \<and> (\<exists>n. computeVScore binary64_platform pristine (Inr []) test_capability
             (Some \<lparr>ctx_capsules = [], ctx_events = []\<rparr>) None = Inr (Finite (of_int n))
          \<and> 0 \<le> n \<and> n \<le> 100)
   \<and> linked_genes (test_capability\<lparr>linked_genes := [js ''g1'']\<rparr>) \<noteq> []
   \<and> computeVScore binary64_platform pristine (Inl SyntaxError)
       (test_capability\<lparr>linked_genes := [js ''g1'']\<rparr>)
       (Some \<lparr>ctx_capsules = [], ctx_events = []\<rparr>) None = Inl SyntaxError"
proof -
  have w: "weights_in_range (weights_or_default None)"
    by (simp add: weights_in_range_def weights_or_default_def)
  have l: "linked_genes test_capability = []"
    by (simp add: test_capability_def)
  have g: "linked_genes (test_capability\<lparr>linked_genes := [js ''g1'']\<rparr>) \<noteq> []"
    by simp
  from computeVScore_integer_in_range_or_throws [where m = binary64_platform and weights = None
      and capability = test_capability and loaded = "Inr []" and r = pristine
      and ctx = "Some \<lparr>ctx_capsules = [], ctx_events = []\<rparr>"] ieee_binary64_platform w l
  have a: "\<exists>n. computeVScore binary64_platform pristine (Inr []) test_capability
             (Some \<lparr>ctx_capsules = [], ctx_events = []\<rparr>) None = Inr (Finite (of_int n))
          \<and> 0 \<le> n \<and> n \<le> 100"
    by blast
  from computeVScore_integer_in_range_or_throws [where m = binary64_platform and weights = None
      and capability = "test_capability\<lparr>linked_genes := [js ''g1'']\<rparr>"
      and loaded = "Inl SyntaxError" and r = pristine
      and ctx = "Some \<lparr>ctx_capsules = [], ctx_events = []\<rparr>" and e = SyntaxError] g
  have b: "computeVScore binary64_platform pristine (Inl SyntaxError)
       (test_capability\<lparr>linked_genes := [js ''g1'']\<rparr>)
       (Some \<lparr>ctx_capsules = [], ctx_events = []\<rparr>) None = Inl SyntaxError"
    by blast
  from ieee_binary64_platform w l a g b show ?thesis by blast
qed

end
